(* ===== verification/Prelude.thy ===== *)
theory Prelude
  imports Main "HOL-Library.AList" "HOL-Library.Sublist"
begin

text \<open>
  Shared vocabulary of the development: the fact collections, generic lemmas on lists and
  association lists, and the combinators in which the C control flow is written.

  A byte is a \<^typ>\<open>char\<close>, so a buffer and a C string are both of type \<^typ>\<open>string\<close>; the
  terminating NUL of a C string is not part of its list.
\<close>

named_theorems path_simps \<open>equations that split and join path strings\<close>
named_theorems fs_simps \<open>what a file-system operation does to a lookup\<close>
named_theorems wire_simps \<open>evaluation of frames and fields\<close>

type_synonym bytes = string

abbreviation NUL :: char where "NUL \<equiv> CHR 0x00"
abbreviation LF :: char where "LF \<equiv> CHR 0x0A"
abbreviation SLASH :: char where "SLASH \<equiv> CHR ''/''"


section \<open>Lists\<close>

lemma takeWhile_append_sep:
  "\<forall>c \<in> set xs. P c \<Longrightarrow> \<not> P y \<Longrightarrow> takeWhile P (xs @ y # ys) = xs"
  by (induction xs) auto

lemma takeWhile_id: "\<forall>c \<in> set xs. P c \<Longrightarrow> takeWhile P xs = xs"
  by (induction xs) auto

lemma map_of_update [simp]: "map_of (AList.update k v es) k' = (if k' = k then Some v else map_of es k')"
  by (simp add: update_conv')

lemma map_of_delete_if [simp]: "map_of (AList.delete k es) k' = (if k' = k then None else map_of es k')"
  by (simp add: delete_conv')

lemma keys_update: "map fst (AList.update k v es) = (if k \<in> fst ` set es then map fst es else map fst es @ [k])"
  by (induction es) auto

lemma distinct_keys_update [intro]:
  "distinct (map fst es) \<Longrightarrow> distinct (map fst (AList.update k v es))"
  by (rule distinct_update)

lemma distinct_keys_delete [intro]:
  "distinct (map fst es) \<Longrightarrow> distinct (map fst (AList.delete k es))"
  by (rule distinct_delete)

lemma set_update_subset: "set (AList.update k v es) \<subseteq> insert (k, v) (set es)"
  by (induction es) auto

lemma set_delete_subset: "set (AList.delete k es) \<subseteq> set es"
  by (auto simp: AList.delete_eq)

lemma update_idem: "map_of es k = Some v \<Longrightarrow> AList.update k v es = es"
  by (induction es) (auto split: if_splits)

lemma update_update_same: "AList.update k v (AList.update k u es) = AList.update k v es"
  by (induction es) auto

lemma delete_hd: "k \<notin> fst ` set es \<Longrightarrow> AList.delete k ((k, v) # es) = es"
  by simp

lemma map_of_in_set: "map_of es k = Some v \<Longrightarrow> (k, v) \<in> set es"
  by (rule map_of_SomeD)

lemma map_of_iff_in_set: "distinct (map fst es) \<Longrightarrow> map_of es k = Some v \<longleftrightarrow> (k, v) \<in> set es"
  by (rule map_of_eq_Some_iff)


lemma update_append_new: "k \<notin> fst ` set es \<Longrightarrow> AList.update k v es = es @ [(k, v)]"
  by (induction es) auto

lemma distinct_keys_updates:
  "distinct (map fst es) \<Longrightarrow> distinct (map fst (fold (\<lambda>(k, v). AList.update k v) evs es))"
  by (induction evs arbitrary: es) auto

lemma map_of_updates:
  "map_of (fold (\<lambda>(k, v). AList.update k v) evs es) k =
     (case map_of (rev evs) k of None \<Rightarrow> map_of es k | Some v \<Rightarrow> Some v)"
  by (induction evs arbitrary: es) (auto simp: map_add_def split: option.splits)

lemma fold_unchanged: "(\<And>x. x \<in> set xs \<Longrightarrow> f x s = s) \<Longrightarrow> fold f xs s = s"
  by (induction xs) auto


section \<open>C control flow\<close>

text \<open>
  A loop that stops at the first non-zero return value, as \<^verbatim>\<open>nftw\<close> does with its callback.
\<close>

fun until_nonzero :: "('v \<Rightarrow> 's \<Rightarrow> int \<times> 's) \<Rightarrow> 'v list \<Rightarrow> 's \<Rightarrow> int \<times> 's" where
  "until_nonzero f [] s = (0, s)"
| "until_nonzero f (v # vs) s =
     (let (rc, s') = f v s in if rc \<noteq> 0 then (rc, s') else until_nonzero f vs s')"

lemma until_nonzero_append:
  "until_nonzero f (vs @ us) s =
     (let (rc, s') = until_nonzero f vs s in if rc \<noteq> 0 then (rc, s') else until_nonzero f us s')"
  by (induction vs arbitrary: s) (auto simp: Let_def split: prod.splits)

lemma until_nonzero_append_ok:
  "until_nonzero f vs s = (0, s') \<Longrightarrow> until_nonzero f (vs @ us) s = until_nonzero f us s'"
  by (simp add: until_nonzero_append)

lemma until_nonzero_invariant:
  assumes "P s" and "\<And>v s. v \<in> set vs \<Longrightarrow> P s \<Longrightarrow> P (snd (f v s))"
  shows "P (snd (until_nonzero f vs s))"
  using assms
proof (induction vs arbitrary: s)
  case Nil
  then show ?case by simp
next
  case (Cons v vs)
  have "P (snd (f v s))" using Cons.prems by simp
  moreover have "P (snd (until_nonzero f vs (snd (f v s))))"
    using Cons.IH [of "snd (f v s)"] Cons.prems calculation by simp
  ultimately show ?case by (cases "f v s") (simp add: Let_def)
qed

end
