(* ===== verification/CTypes.thy ===== *)
theory CTypes
  imports Prelude "HOL-Library.Word"
begin

text \<open>
  The data of \<^verbatim>\<open>src/c/agentbox.h\<close>: the sizes of the fixed buffers, the error codes that
  cross the client/supervisor boundary with their numbers, the codes of the capability probe,
  and the verbs of the wire protocol. The two enumerations are ordered by their numbers.
\<close>

section \<open>Buffer sizes\<close>

definition AGENTBOX_MAX_CHECKPOINTS :: nat where "AGENTBOX_MAX_CHECKPOINTS = 256"
definition AGENTBOX_ID_LEN :: nat where "AGENTBOX_ID_LEN = 64"
definition AGENTBOX_TAG_LEN :: nat where "AGENTBOX_TAG_LEN = 128"
definition AGENTBOX_PATH_LEN :: nat where "AGENTBOX_PATH_LEN = 4096"

definition AGENTBOX_EXEC_BINARY_NAME :: string where
  "AGENTBOX_EXEC_BINARY_NAME = ''agentbox-exec''"

text \<open>\<^verbatim>\<open>PATH_MAX\<close> of \<^verbatim>\<open>limits.h\<close> on Linux.\<close>

definition PATH_MAX :: nat where "PATH_MAX = 4096"

lemmas buffer_sizes = AGENTBOX_MAX_CHECKPOINTS_def AGENTBOX_ID_LEN_def AGENTBOX_TAG_LEN_def
  AGENTBOX_PATH_LEN_def PATH_MAX_def


section \<open>Error codes\<close>

datatype errcode =
    AGENTBOX_OK
  | AGENTBOX_ERR_GENERIC
  | AGENTBOX_ERR_NAMESPACE_UNAVAILABLE
  | AGENTBOX_ERR_MOUNT_FAILED
  | AGENTBOX_ERR_CHECKPOINT_NOT_FOUND
  | AGENTBOX_ERR_IO
  | AGENTBOX_ERR_TIMEOUT
  | AGENTBOX_ERR_SUPERVISOR_DOWN
  | AGENTBOX_ERR_INVALID_ARGUMENT
  | AGENTBOX_ERR_FILESYSTEM_MISMATCH
  | AGENTBOX_ERR_PERMISSION_DENIED
  | AGENTBOX_ERR_CHECKPOINT_LIMIT_REACHED

text \<open>The number an enumerator has in C, which is what a response frame carries.\<close>

primrec errnum :: "errcode \<Rightarrow> int" where
  "errnum AGENTBOX_OK = 0"
| "errnum AGENTBOX_ERR_GENERIC = 1"
| "errnum AGENTBOX_ERR_NAMESPACE_UNAVAILABLE = 2"
| "errnum AGENTBOX_ERR_MOUNT_FAILED = 3"
| "errnum AGENTBOX_ERR_CHECKPOINT_NOT_FOUND = 4"
| "errnum AGENTBOX_ERR_IO = 5"
| "errnum AGENTBOX_ERR_TIMEOUT = 6"
| "errnum AGENTBOX_ERR_SUPERVISOR_DOWN = 7"
| "errnum AGENTBOX_ERR_INVALID_ARGUMENT = 8"
| "errnum AGENTBOX_ERR_FILESYSTEM_MISMATCH = 9"
| "errnum AGENTBOX_ERR_PERMISSION_DENIED = 10"
| "errnum AGENTBOX_ERR_CHECKPOINT_LIMIT_REACHED = 11"

lemma errnum_inj [simp]: "errnum a = errnum b \<longleftrightarrow> a = b"
  by (cases a; cases b) simp_all

lemma errnum_range: "0 \<le> errnum e \<and> errnum e \<le> 11"
  by (cases e) simp_all

lemma errnum_zero [simp]: "errnum e = 0 \<longleftrightarrow> e = AGENTBOX_OK"
  by (cases e) simp_all

instantiation errcode :: linorder
begin

definition less_eq_errcode :: "errcode \<Rightarrow> errcode \<Rightarrow> bool" where
  "less_eq_errcode a b \<longleftrightarrow> errnum a \<le> errnum b"

definition less_errcode :: "errcode \<Rightarrow> errcode \<Rightarrow> bool" where
  "less_errcode a b \<longleftrightarrow> errnum a < errnum b"

instance
  by standard (auto simp: less_eq_errcode_def less_errcode_def dest: order_antisym)

end

datatype probe_result =
    AGENTBOX_PROBE_OK
  | AGENTBOX_PROBE_UNSHARE_FAILED
  | AGENTBOX_PROBE_ID_MAP_DENIED
  | AGENTBOX_PROBE_MOUNT_PERM_DENIED
  | AGENTBOX_PROBE_MOUNT_OTHER_FAILED
  | AGENTBOX_PROBE_FORK_FAILED

primrec probenum :: "probe_result \<Rightarrow> int" where
  "probenum AGENTBOX_PROBE_OK = 0"
| "probenum AGENTBOX_PROBE_UNSHARE_FAILED = 1"
| "probenum AGENTBOX_PROBE_ID_MAP_DENIED = 2"
| "probenum AGENTBOX_PROBE_MOUNT_PERM_DENIED = 3"
| "probenum AGENTBOX_PROBE_MOUNT_OTHER_FAILED = 4"
| "probenum AGENTBOX_PROBE_FORK_FAILED = 5"

lemma probenum_inj [simp]: "probenum a = probenum b \<longleftrightarrow> a = b"
  by (cases a; cases b) simp_all


section \<open>Values of \<^verbatim>\<open>errno\<close>\<close>

text \<open>The ones the code tests or a modelled system call can return.\<close>

datatype errno = EPERM | ENOENT | EINTR | EIO | EAGAIN | EACCES | EEXIST | ENOTDIR | EISDIR
  | EINVAL | ENOTEMPTY | ELOOP | ENOSPC | EROFS | EPIPE | ERANGE | ENODATA | EBUSY | ENXIO

end
