(* ===== verification/CString.thy ===== *)
theory CString
  imports CTypes
begin

text \<open>
  The C library's string functions, as far as \<^verbatim>\<open>src/c\<close> uses them: C strings in buffers,
  \<^verbatim>\<open>snprintf\<close> with its truncation, decimal output and \<^verbatim>\<open>atoi\<close>/\<^verbatim>\<open>atoll\<close>/\<^verbatim>\<open>strtoul\<close> with
  the glibc saturation, \<^verbatim>\<open>strncmp\<close> as a prefix test; and \<^verbatim>\<open>next_field\<close> of
  \<^verbatim>\<open>agentbox_core.c\<close>, with the round trips that the wire protocol rests on.
\<close>

section \<open>C strings\<close>

text \<open>The C string that starts at a pointer into a buffer ends at the first NUL.\<close>

definition c_str :: "bytes \<Rightarrow> string" where
  "c_str buf = takeWhile (\<lambda>c. c \<noteq> NUL) buf"

definition no_nul :: "bytes \<Rightarrow> bool" where
  "no_nul s \<longleftrightarrow> NUL \<notin> set s"

definition no_lf :: "bytes \<Rightarrow> bool" where
  "no_lf s \<longleftrightarrow> LF \<notin> set s"

lemma no_nul_simps [simp]:
  "no_nul []" "no_nul (c # s) \<longleftrightarrow> c \<noteq> NUL \<and> no_nul s" "no_nul (s @ t) \<longleftrightarrow> no_nul s \<and> no_nul t"
  by (auto simp: no_nul_def)

lemma no_lf_simps [simp]:
  "no_lf []" "no_lf (c # s) \<longleftrightarrow> c \<noteq> LF \<and> no_lf s" "no_lf (s @ t) \<longleftrightarrow> no_lf s \<and> no_lf t"
  by (auto simp: no_lf_def)

lemma c_str_id [simp]: "no_nul s \<Longrightarrow> c_str s = s"
  unfolding c_str_def no_nul_def by (rule takeWhile_id) metis

lemma no_nul_c_str [simp]: "no_nul (c_str s)"
  by (auto simp: c_str_def no_nul_def dest: set_takeWhileD)

lemma c_str_append_nul: "no_nul s \<Longrightarrow> c_str (s @ NUL # r) = s"
  unfolding c_str_def no_nul_def by (rule takeWhile_append_sep) auto

lemma no_nul_take [intro]: "no_nul s \<Longrightarrow> no_nul (take n s)"
  by (auto simp: no_nul_def dest: in_set_takeD)

lemma no_lf_take [intro]: "no_lf s \<Longrightarrow> no_lf (take n s)"
  by (auto simp: no_lf_def dest: in_set_takeD)

text \<open>
  What \<^verbatim>\<open>snprintf (buf, n, ...)\<close> leaves in \<^verbatim>\<open>buf\<close> when the formatted text is \<open>s\<close>: at most
  \<open>n - 1\<close> bytes and the NUL. Its return value is \<open>length s\<close>.
\<close>

definition snprintf :: "nat \<Rightarrow> string \<Rightarrow> string" where
  "snprintf n s = take (n - 1) s"

lemma snprintf_fits [simp]: "length s < n \<Longrightarrow> snprintf n s = s"
  by (simp add: snprintf_def)

lemma snprintf_length: "0 < n \<Longrightarrow> length (snprintf n s) < n"
  by (simp add: snprintf_def)

lemma no_nul_snprintf [intro]: "no_nul s \<Longrightarrow> no_nul (snprintf n s)"
  unfolding snprintf_def by (rule no_nul_take)

lemma no_lf_snprintf [intro]: "no_lf s \<Longrightarrow> no_lf (snprintf n s)"
  unfolding snprintf_def by (rule no_lf_take)

text \<open>\<^verbatim>\<open>strncmp (s, p, strlen (p)) == 0\<close>: \<open>p\<close> is a prefix of \<open>s\<close>.\<close>

definition strncmp_eq :: "string \<Rightarrow> string \<Rightarrow> bool" where
  "strncmp_eq s p \<longleftrightarrow> take (length p) s = p"

lemma strncmp_eq_iff_prefix: "strncmp_eq s p \<longleftrightarrow> prefix p s"
  by (auto simp: strncmp_eq_def take_is_prefix prefix_def) (metis append_take_drop_id)


section \<open>Decimal numbers\<close>

definition digit_char :: "nat \<Rightarrow> char" where
  "digit_char d = ''0123456789'' ! d"

definition is_digit :: "char \<Rightarrow> bool" where
  "is_digit c \<longleftrightarrow> c \<in> set ''0123456789''"

definition digit_val :: "char \<Rightarrow> int" where
  "digit_val c = of_char c - 48"

fun dec_of_nat :: "nat \<Rightarrow> string" where
  "dec_of_nat n = (if n < 10 then [digit_char n] else dec_of_nat (n div 10) @ [digit_char (n mod 10)])"

declare dec_of_nat.simps [simp del]

text \<open>\<^verbatim>\<open>%d\<close>, \<^verbatim>\<open>%lld\<close> and \<^verbatim>\<open>%zu\<close>.\<close>

definition dec_of_int :: "int \<Rightarrow> string" where
  "dec_of_int i = (if i < 0 then CHR ''-'' # dec_of_nat (nat (- i)) else dec_of_nat (nat i))"

lemma less_ten_cases: "(d::nat) < 10 \<Longrightarrow> d \<in> {0, 1, 2, 3, 4, 5, 6, 7, 8, 9}"
  by auto

lemma digit_char_props:
  assumes "d < 10"
  shows "is_digit (digit_char d)" "digit_val (digit_char d) = int d"
  using less_ten_cases [OF assms]
  by (auto simp: is_digit_def digit_char_def digit_val_def)

lemma dec_of_nat_digits: "c \<in> set (dec_of_nat n) \<Longrightarrow> is_digit c"
proof (induction n rule: dec_of_nat.induct)
  case (1 n)
  have "c \<in> set (if n < 10 then [digit_char n] else dec_of_nat (n div 10) @ [digit_char (n mod 10)])"
    using "1.prems" dec_of_nat.simps [of n] by simp
  then show ?case using "1.IH" by (auto simp: digit_char_props split: if_splits)
qed

lemma dec_of_nat_nonempty [simp]: "dec_of_nat n \<noteq> []"
  by (subst dec_of_nat.simps) simp

lemma is_digit_not:
  "is_digit c \<Longrightarrow> c \<noteq> NUL" "is_digit c \<Longrightarrow> c \<noteq> LF" "is_digit c \<Longrightarrow> c \<noteq> SLASH"
  "is_digit c \<Longrightarrow> c \<noteq> CHR ''-''" "is_digit c \<Longrightarrow> c \<noteq> CHR ''+''" "is_digit c \<Longrightarrow> c \<noteq> CHR ''.''"
  by (auto simp: is_digit_def)

fun digits_value :: "int \<Rightarrow> string \<Rightarrow> int" where
  "digits_value a [] = a"
| "digits_value a (c # cs) = (if is_digit c then digits_value (10 * a + digit_val c) cs else a)"

lemma digits_value_append_digits:
  "\<forall>c \<in> set xs. is_digit c \<Longrightarrow> digits_value a (xs @ ys) = digits_value (digits_value a xs) ys"
  by (induction xs arbitrary: a) auto

lemma digits_value_dec: "digits_value 0 (dec_of_nat n) = int n"
proof (induction n rule: dec_of_nat.induct)
  case (1 n)
  show ?case
  proof (cases "n < 10")
    case True
    then show ?thesis by (subst dec_of_nat.simps) (simp add: digit_char_props)
  next
    case False
    have "digits_value 0 (dec_of_nat (n div 10) @ [digit_char (n mod 10)])
        = digits_value (int (n div 10)) [digit_char (n mod 10)]"
      using 1 False by (subst digits_value_append_digits) (auto dest: dec_of_nat_digits)
    also have "\<dots> = int n"
      by (simp add: digit_char_props zdiv_int zmod_int)
    finally show ?thesis using False by (subst dec_of_nat.simps) simp
  qed
qed

text \<open>A number followed by anything that does not begin with a digit reads back.\<close>

definition ends_number :: "string \<Rightarrow> bool" where
  "ends_number s \<longleftrightarrow> (case s of [] \<Rightarrow> True | c # _ \<Rightarrow> \<not> is_digit c)"

lemma digits_value_dec_rest:
  "ends_number r \<Longrightarrow> digits_value 0 (dec_of_nat n @ r) = int n"
  by (subst digits_value_append_digits)
    (auto dest: dec_of_nat_digits simp: digits_value_dec ends_number_def split: list.splits)

lemma dec_of_nat_inj [simp]: "dec_of_nat m = dec_of_nat n \<longleftrightarrow> m = n"
  by (metis digits_value_dec of_nat_eq_iff)

lemma no_nul_dec [simp]: "no_nul (dec_of_nat n)" "no_nul (dec_of_int i)"
  by (auto simp: no_nul_def dec_of_int_def dest: dec_of_nat_digits is_digit_not)

lemma no_lf_dec [simp]: "no_lf (dec_of_nat n)" "no_lf (dec_of_int i)"
  by (auto simp: no_lf_def dec_of_int_def dest: dec_of_nat_digits is_digit_not)


section \<open>Reading numbers\<close>

definition c_isspace :: "char \<Rightarrow> bool" where
  "c_isspace c \<longleftrightarrow> c \<in> {CHR 0x20, CHR 0x09, CHR 0x0A, CHR 0x0B, CHR 0x0C, CHR 0x0D}"

definition strip_sign :: "string \<Rightarrow> int \<times> string" where
  "strip_sign s = (case s of
     [] \<Rightarrow> (1, [])
   | c # r \<Rightarrow> if c = CHR ''-'' then (-1, r) else if c = CHR ''+'' then (1, r) else (1, c # r))"

text \<open>The number a string begins with, before any saturation.\<close>

definition scan_int :: "string \<Rightarrow> int" where
  "scan_int s = (let (sg, r) = strip_sign (dropWhile c_isspace s) in sg * digits_value 0 r)"

text \<open>\<^verbatim>\<open>strtol\<close> saturates at the bounds of a 64-bit \<^verbatim>\<open>long\<close>; \<^verbatim>\<open>atoi\<close> casts its result to \<^verbatim>\<open>int\<close>.\<close>

definition c_strtol :: "string \<Rightarrow> int" where
  "c_strtol s = max (- (2 ^ 63)) (min (2 ^ 63 - 1) (scan_int s))"

definition c_atoi :: "string \<Rightarrow> int" where
  "c_atoi s = signed_take_bit 31 (c_strtol s)"

definition c_atoll :: "string \<Rightarrow> int" where
  "c_atoll s = c_strtol s"

text \<open>\<^verbatim>\<open>strtoul\<close>: a minus sign negates modulo \<open>2 ^ 64\<close>, a value out of range gives \<open>2 ^ 64 - 1\<close>.\<close>

definition c_strtoul :: "string \<Rightarrow> nat" where
  "c_strtoul s = (let v = scan_int s in
     if 2 ^ 64 \<le> \<bar>v\<bar> then 2 ^ 64 - 1 else nat (v mod 2 ^ 64))"

lemma scan_int_dec_of_nat: "ends_number r \<Longrightarrow> scan_int (dec_of_nat n @ r) = int n"
proof -
  assume r: "ends_number r"
  obtain c cs where c: "dec_of_nat n = c # cs" by (cases "dec_of_nat n") auto
  have "is_digit c" using c dec_of_nat_digits [of c n] by simp
  then have "\<not> c_isspace c" "c \<noteq> CHR ''-''" "c \<noteq> CHR ''+''"
    by (auto simp: is_digit_def c_isspace_def)
  then show ?thesis
    using digits_value_dec_rest [OF r, of n] by (simp add: c scan_int_def strip_sign_def)
qed

lemma scan_int_dec_of_int: "ends_number r \<Longrightarrow> scan_int (dec_of_int i @ r) = i"
  by (cases "i < 0")
    (simp_all add: dec_of_int_def scan_int_dec_of_nat, simp add: scan_int_def strip_sign_def
      c_isspace_def digits_value_dec_rest)

lemma signed_take_bit_31_id:
  "- (2 ^ 31) \<le> i \<Longrightarrow> i < 2 ^ 31 \<Longrightarrow> signed_take_bit 31 i = (i::int)"
  by (simp add: signed_take_bit_int_eq_self)

lemma c_atoi_dec:
  assumes "- (2 ^ 31) \<le> i" "i < 2 ^ 31" "ends_number r"
  shows "c_atoi (dec_of_int i @ r) = i"
proof -
  have "c_strtol (dec_of_int i @ r) = i"
    using assms by (simp add: c_strtol_def scan_int_dec_of_int)
  then show ?thesis using assms by (simp add: c_atoi_def signed_take_bit_31_id)
qed

lemma c_atoll_dec:
  "- (2 ^ 63) \<le> i \<Longrightarrow> i < 2 ^ 63 \<Longrightarrow> ends_number r \<Longrightarrow> c_atoll (dec_of_int i @ r) = i"
  by (simp add: c_atoll_def c_strtol_def scan_int_dec_of_int)

lemma c_strtoul_dec:
  "n < 2 ^ 64 \<Longrightarrow> ends_number r \<Longrightarrow> c_strtoul (dec_of_nat n @ r) = n"
  by (simp add: c_strtoul_def scan_int_dec_of_nat nat_mod_distrib)

text \<open>Different numbers have different names, and a number below \<open>10 ^ k\<close> has at most \<open>k\<close> digits.\<close>

lemma dec_of_int_inj [simp]: "dec_of_int i = dec_of_int j \<longleftrightarrow> i = j"
proof
  assume eq: "dec_of_int i = dec_of_int j"
  have "ends_number []" by (simp add: ends_number_def)
  then show "i = j" using eq scan_int_dec_of_int by metis
qed simp

lemma length_dec_of_nat: "n < 10 ^ Suc k \<Longrightarrow> length (dec_of_nat n) \<le> Suc k"
proof (induction k arbitrary: n)
  case 0
  then show ?case by (subst dec_of_nat.simps) simp
next
  case (Suc k)
  have "n div 10 < 10 ^ Suc k" using Suc.prems by (simp add: less_mult_imp_div_less mult.commute)
  then have "length (dec_of_nat (n div 10)) \<le> Suc k" by (rule Suc.IH)
  then show ?case by (subst dec_of_nat.simps) simp
qed

lemma length_dec_of_int: "0 \<le> i \<Longrightarrow> i < 2 ^ 31 \<Longrightarrow> length (dec_of_int i) \<le> 10"
  using length_dec_of_nat [of "nat i" 9] by (simp add: dec_of_int_def)

lemma no_slash_dec [simp]: "SLASH \<notin> set (dec_of_int i)"
  by (auto simp: dec_of_int_def dest: dec_of_nat_digits is_digit_not)

lemma dec_of_int_nonempty [simp]: "dec_of_int i \<noteq> []"
  by (simp add: dec_of_int_def)

end
