(* ===== verification/FileSys.thy ===== *)
theory FileSys
  imports CString
begin

unbundle bit_operations_syntax

text \<open>
  The file system the engine works on, as far as \<^verbatim>\<open>src/c\<close> uses it: a tree of nodes, path
  strings with their resolution through symbolic links, the system calls with the errors that
  follow from the tree, and the tree walk of \<^verbatim>\<open>nftw\<close>.

  Beyond the errors that follow from the tree, the kernel may refuse any call for reasons of its
  own (permissions, a full or broken disk): the field \<open>refuse\<close> of the world answers every call
  with an optional \<^verbatim>\<open>errno\<close>, and every theorem says what it assumes of it. Other processes do not
  change the tree while a call of the engine runs.
\<close>

section \<open>Nodes\<close>

type_synonym mode = "32 word"
type_synonym path = "string list"

text \<open>
  A directory lists its entries in the order \<^verbatim>\<open>readdir\<close> returns them. The extended attributes of
  directories are kept, those of other nodes are never read by the engine. \<open>Chr\<close> is a character
  device with its major and minor number, \<open>Special\<close> a fifo, a socket or a block device.
\<close>

datatype node =
    Reg mode bytes
  | Lnk bytes
  | Dir mode "(string \<times> bytes) list" "(string \<times> node) list"
  | Chr mode nat nat
  | Special mode

primrec is_dir :: "node \<Rightarrow> bool" where
  "is_dir (Reg m c) = False"
| "is_dir (Lnk l) = False"
| "is_dir (Dir m x es) = True"
| "is_dir (Chr m a b) = False"
| "is_dir (Special m) = False"

primrec is_lnk :: "node \<Rightarrow> bool" where
  "is_lnk (Reg m c) = False"
| "is_lnk (Lnk l) = True"
| "is_lnk (Dir m x es) = False"
| "is_lnk (Chr m a b) = False"
| "is_lnk (Special m) = False"

primrec entries :: "node \<Rightarrow> (string \<times> node) list" where
  "entries (Reg m c) = []"
| "entries (Lnk l) = []"
| "entries (Dir m x es) = es"
| "entries (Chr m a b) = []"
| "entries (Special m) = []"

lemma is_dirE: "is_dir n \<Longrightarrow> (\<And>m x es. n = Dir m x es \<Longrightarrow> P) \<Longrightarrow> P"
  by (cases n) auto

text \<open>The part of \<^verbatim>\<open>struct stat\<close> the engine looks at.\<close>

datatype filetype = S_IFREG | S_IFLNK | S_IFDIR | S_IFCHR | S_IFOTHER

record stat =
  st_type :: filetype
  st_perm :: mode
  st_rdev :: "nat \<times> nat"

primrec stat_of :: "node \<Rightarrow> stat" where
  "stat_of (Reg m c) = \<lparr>st_type = S_IFREG, st_perm = m, st_rdev = (0, 0)\<rparr>"
| "stat_of (Lnk l) = \<lparr>st_type = S_IFLNK, st_perm = 511, st_rdev = (0, 0)\<rparr>"
| "stat_of (Dir m x es) = \<lparr>st_type = S_IFDIR, st_perm = m, st_rdev = (0, 0)\<rparr>"
| "stat_of (Chr m a b) = \<lparr>st_type = S_IFCHR, st_perm = m, st_rdev = (a, b)\<rparr>"
| "stat_of (Special m) = \<lparr>st_type = S_IFOTHER, st_perm = m, st_rdev = (0, 0)\<rparr>"

lemma stat_of_dir [simp]: "st_type (stat_of n) = S_IFDIR \<longleftrightarrow> is_dir n"
  by (cases n) auto


section \<open>Access by path\<close>

fun lookup :: "node \<Rightarrow> path \<Rightarrow> node option" where
  "lookup t [] = Some t"
| "lookup t (n # p) = (case map_of (entries t) n of None \<Rightarrow> None | Some c \<Rightarrow> lookup c p)"

text \<open>
  \<open>put p v t\<close> sets or removes the entry at the non-empty path \<open>p\<close>, whose parent has to be a
  directory.
\<close>

fun put :: "path \<Rightarrow> node option \<Rightarrow> node \<Rightarrow> node" where
  "put [] v t = t"
| "put [n] v (Dir m x es) =
     Dir m x (case v of None \<Rightarrow> AList.delete n es | Some c \<Rightarrow> AList.update n c es)"
| "put (n # k # p) v (Dir m x es) =
     Dir m x (case map_of es n of None \<Rightarrow> es | Some c \<Rightarrow> AList.update n (put (k # p) v c) es)"
| "put (n # p) v t = t"

definition dir_at :: "node \<Rightarrow> path \<Rightarrow> bool" where
  "dir_at t p \<longleftrightarrow> (case lookup t p of None \<Rightarrow> False | Some n \<Rightarrow> is_dir n)"

lemma dir_atE: "dir_at t p \<Longrightarrow> (\<And>m x es. lookup t p = Some (Dir m x es) \<Longrightarrow> P) \<Longrightarrow> P"
  by (auto simp: dir_at_def split: option.splits elim: is_dirE)

lemma dir_at_Dir [simp]: "lookup t p = Some (Dir m x es) \<Longrightarrow> dir_at t p"
  by (simp add: dir_at_def)

lemma lookup_append [fs_simps]:
  "lookup t (p @ q) = (case lookup t p of None \<Rightarrow> None | Some n \<Rightarrow> lookup n q)"
  by (induction t p rule: lookup.induct) (auto split: option.splits)

lemma lookup_not_dir: "\<not> is_dir t \<Longrightarrow> lookup t (n # p) = None"
  by (cases t) auto

lemma dir_at_prefix: "dir_at t (p @ q) \<Longrightarrow> dir_at t p"
proof (cases q)
  case (Cons n q')
  assume "dir_at t (p @ q)"
  then show ?thesis
    using Cons lookup_not_dir by (fastforce simp: dir_at_def lookup_append split: option.splits)
qed simp

lemma is_dir_put [simp]: "is_dir (put p v t) = is_dir t"
  by (induction p v t rule: put.induct) auto

lemma lookup_put_above [fs_simps]:
  "q \<noteq> [] \<Longrightarrow> lookup (put (p @ q) v t) p = map_option (put q v) (lookup t p)"
proof (induction p arbitrary: t)
  case (Cons n p)
  obtain k r where kr: "p @ q = k # r" using Cons.prems by (cases "p @ q") auto
  show ?case
    using Cons.IH [OF Cons.prems] by (cases t) (auto simp: kr split: option.splits)
qed simp

lemma lookup_put_self [fs_simps]:
  assumes "dir_at t (butlast p)" "p \<noteq> []"
  shows "lookup (put p v t) p = v"
proof -
  obtain b n where p: "p = b @ [n]" using assms(2) by (cases p rule: rev_cases) auto
  from assms(1) p obtain m x es where "lookup t b = Some (Dir m x es)" by (auto elim: dir_atE)
  then show ?thesis by (simp add: p lookup_append lookup_put_above split: option.splits)
qed

lemma lookup_put_below [fs_simps]:
  "dir_at t (butlast p) \<Longrightarrow> p \<noteq> [] \<Longrightarrow>
     lookup (put p v t) (p @ q) = (case v of None \<Rightarrow> None | Some n \<Rightarrow> lookup n q)"
  by (simp add: lookup_append lookup_put_self)

lemma lookup_put_parallel [fs_simps]: "p \<parallel> q \<Longrightarrow> lookup (put p v t) q = lookup t q"
proof (induction p v t arbitrary: q rule: put.induct)
  case (2 n v m x es)
  then show ?case by (cases q) (auto split: option.splits)
next
  case (3 n k p v m x es)
  then obtain a q' where q: "q = a # q'" by (cases q) auto
  show ?case
  proof (cases "a = n")
    case True
    then have "(k # p) \<parallel> q'" using 3(2) q by (simp add: parallel_def)
    then show ?thesis using 3(1) True by (auto simp: q split: option.splits)
  next
    case False
    then show ?thesis by (auto simp: q split: option.splits)
  qed
qed auto

lemma dir_at_put_prefix: "dir_at t p \<Longrightarrow> q \<noteq> [] \<Longrightarrow> dir_at (put (p @ q) v t) p"
  by (auto simp: dir_at_def lookup_put_above split: option.splits)

lemma dir_at_put_butlast: "dir_at t (butlast p) \<Longrightarrow> p \<noteq> [] \<Longrightarrow> dir_at (put p v t) (butlast p)"
  by (metis append_butlast_last_id dir_at_put_prefix list.distinct(1))


lemma lookup_put_exists: "lookup t p = Some d \<Longrightarrow> p \<noteq> [] \<Longrightarrow> lookup (put p v t) p = v"
proof (rule lookup_put_self)
  assume "lookup t p = Some d" "p \<noteq> []"
  then have "lookup t (butlast p @ [last p]) = Some d" by simp
  then obtain k where k: "lookup t (butlast p) = Some k" "lookup k [last p] = Some d"
    by (auto simp only: lookup_append split: option.splits)
  then have "is_dir k" using lookup_not_dir [of k "last p" "[]"] by auto
  with k show "dir_at t (butlast p)" by (simp add: dir_at_def)
qed


section \<open>Path strings\<close>

text \<open>A path string names the components between its slashes; repeated slashes count as one.\<close>

fun split_slash :: "string \<Rightarrow> string list" where
  "split_slash [] = [[]]"
| "split_slash (c # cs) =
     (if c = SLASH then [] # split_slash cs
      else (case split_slash cs of [] \<Rightarrow> [[c]] | h # t \<Rightarrow> (c # h) # t))"

definition comps :: "string \<Rightarrow> path" where
  "comps s = filter (\<lambda>c. c \<noteq> []) (split_slash s)"

lemma split_slash_nonempty [simp]: "split_slash s \<noteq> []"
  by (induction s) (auto split: list.splits)

lemma split_slash_append: "split_slash (a @ SLASH # b) = split_slash a @ split_slash b"
  by (induction a) (auto split: list.splits)

lemma comps_join [path_simps]: "comps (a @ SLASH # b) = comps a @ comps b"
  by (simp add: comps_def split_slash_append)

lemma comps_nil [path_simps, simp]: "comps [] = []"
  by (simp add: comps_def)

text \<open>The name of a directory entry: never empty, without slash and NUL, and not a dot entry.\<close>

definition wf_name :: "string \<Rightarrow> bool" where
  "wf_name n \<longleftrightarrow> n \<noteq> [] \<and> SLASH \<notin> set n \<and> no_nul n \<and> n \<noteq> ''.'' \<and> n \<noteq> ''..''"

lemma split_slash_name: "SLASH \<notin> set n \<Longrightarrow> split_slash n = [n]"
  by (induction n) auto

lemma comps_name [path_simps]: "wf_name n \<Longrightarrow> comps n = [n]"
  by (simp add: comps_def wf_name_def split_slash_name)

definition plain :: "path \<Rightarrow> bool" where
  "plain p \<longleftrightarrow> ''.'' \<notin> set p \<and> ''..'' \<notin> set p"

lemma plain_simps [simp]:
  "plain []" "plain (n # p) \<longleftrightarrow> n \<noteq> ''.'' \<and> n \<noteq> ''..'' \<and> plain p"
  "plain (p @ q) \<longleftrightarrow> plain p \<and> plain q"
  by (auto simp: plain_def)

lemma wf_name_plain [simp]: "wf_name n \<Longrightarrow> plain [n]"
  by (simp add: wf_name_def)

text \<open>
  Path resolution from the root: symbolic links in front of further components are followed,
  the last component only if \<open>follow\<close> holds, at most \<open>k\<close> links (Linux allows 40).
\<close>

fun namei :: "node \<Rightarrow> bool \<Rightarrow> nat \<Rightarrow> path \<Rightarrow> path \<Rightarrow> errno + path" where
  "namei t follow k done [] = Inr done"
| "namei t follow k done (c # cs) =
     (if c = ''.'' then namei t follow k done cs
      else if c = ''..'' then namei t follow k (butlast done) cs
      else (case lookup t (done @ [c]) of
              None \<Rightarrow> if cs = [] then Inr (done @ [c]) else Inl ENOENT
            | Some (Lnk l) \<Rightarrow>
                if cs = [] \<and> \<not> follow then Inr (done @ [c])
                else (case k of
                        0 \<Rightarrow> Inl ELOOP
                      | Suc k' \<Rightarrow> namei t follow k'
                          (if take 1 l = [SLASH] then [] else done) (comps l @ cs))
            | Some (Dir m x es) \<Rightarrow> namei t follow k (done @ [c]) cs
            | Some (Reg m d) \<Rightarrow> if cs = [] then Inr (done @ [c]) else Inl ENOTDIR
            | Some (Chr m a b) \<Rightarrow> if cs = [] then Inr (done @ [c]) else Inl ENOTDIR
            | Some (Special m) \<Rightarrow> if cs = [] then Inr (done @ [c]) else Inl ENOTDIR))"

text \<open>
  A path whose parent is a directory of the tree resolves to itself: no link is on the way, and
  the last component is not followed or is no link.
\<close>

lemma namei_under_dirs:
  assumes "cs \<noteq> []" "plain cs" "dir_at t (done @ butlast cs)"
    and "follow \<Longrightarrow> \<not> (\<exists>l. lookup t (done @ cs) = Some (Lnk l))"
  shows "namei t follow k done cs = Inr (done @ cs)"
  using assms
proof (induction cs arbitrary: "done")
  case (Cons c cs)
  show ?case
  proof (cases "cs = []")
    case True
    then show ?thesis using Cons.prems by (auto split: option.splits node.splits)
  next
    case False
    then have "dir_at t ((done @ [c]) @ butlast cs)" using Cons.prems by simp
    moreover from dir_at_prefix [OF this]
    obtain m x es where "lookup t (done @ [c]) = Some (Dir m x es)" by (rule dir_atE)
    ultimately show ?thesis using Cons False by simp
  qed
qed simp

end
