(* ===== verification/Kernel.thy ===== *)
theory Kernel
  imports FileSys
begin

text \<open>
  The world the engine runs in and the system calls it makes. The tree, the mount table and the
  clock are state; what the kernel and the helper programs decide for themselves (refusals,
  \<^verbatim>\<open>mount\<close>, \<^verbatim>\<open>fuse-overlayfs\<close>, \<^verbatim>\<open>malloc\<close>, how much a \<^verbatim>\<open>write\<close> accepts) are fields that answer
  the calls and that no operation changes.
\<close>

section \<open>The world\<close>

datatype sysop = SysLstat | SysOpendir | SysUnlink | SysRmdir | SysMkdir | SysOpenRead
  | SysOpenWrite | SysRead | SysWrite | SysReadlink | SysSymlink | SysGetxattr | SysUmount | SysStat

record world =
  fs :: node
  mtab :: "(string \<times> string) list"
  clock_ms :: int
  umask :: mode
  refuse :: "sysop \<Rightarrow> string \<Rightarrow> errno option"
  wsize :: "nat \<Rightarrow> nat"
  mem :: "nat \<Rightarrow> bool"
  mount_answer :: "string \<Rightarrow> string \<Rightarrow> errno option"
  fuse_answer :: "string \<Rightarrow> string \<Rightarrow> 32 word option"

definition max_links :: nat where "max_links = 40"

definition resolve :: "world \<Rightarrow> bool \<Rightarrow> string \<Rightarrow> errno + path" where
  "resolve w follow s = (if s = [] then Inl ENOENT else namei (fs w) follow max_links [] (comps s))"


section \<open>System calls on the tree\<close>

definition sys_lstat :: "string \<Rightarrow> world \<Rightarrow> errno + node" where
  "sys_lstat s w = (case refuse w SysLstat s of
     Some e \<Rightarrow> Inl e
   | None \<Rightarrow> (case resolve w False s of
       Inl e \<Rightarrow> Inl e
     | Inr p \<Rightarrow> (case lookup (fs w) p of None \<Rightarrow> Inl ENOENT | Some n \<Rightarrow> Inr n)))"

definition sys_stat :: "string \<Rightarrow> world \<Rightarrow> errno + node" where
  "sys_stat s w = (case refuse w SysStat s of
     Some e \<Rightarrow> Inl e
   | None \<Rightarrow> (case resolve w True s of
       Inl e \<Rightarrow> Inl e
     | Inr p \<Rightarrow> (case lookup (fs w) p of None \<Rightarrow> Inl ENOENT | Some n \<Rightarrow> Inr n)))"

text \<open>A call that changes the entry a path names: refused, unresolved, or an answer from the entry.\<close>

definition entry_call ::
  "sysop \<Rightarrow> string \<Rightarrow> (path \<Rightarrow> node option \<Rightarrow> errno + node option) \<Rightarrow> world \<Rightarrow> errno option \<times> world" where
  "entry_call op s answer w = (case refuse w op s of
     Some e \<Rightarrow> (Some e, w)
   | None \<Rightarrow> (case resolve w False s of
       Inl e \<Rightarrow> (Some e, w)
     | Inr p \<Rightarrow> (case answer p (lookup (fs w) p) of
         Inl e \<Rightarrow> (Some e, w)
       | Inr v \<Rightarrow> (None, w\<lparr>fs := put p v (fs w)\<rparr>))))"

definition sys_unlink :: "string \<Rightarrow> world \<Rightarrow> errno option \<times> world" where
  "sys_unlink s = entry_call SysUnlink s (\<lambda>p v. case v of
     None \<Rightarrow> Inl ENOENT
   | Some n \<Rightarrow> if is_dir n then Inl EISDIR else Inr None)"

definition sys_rmdir :: "string \<Rightarrow> world \<Rightarrow> errno option \<times> world" where
  "sys_rmdir s = entry_call SysRmdir s (\<lambda>p v. case v of
     None \<Rightarrow> Inl ENOENT
   | Some n \<Rightarrow> if \<not> is_dir n then Inl ENOTDIR
              else if p = [] then Inl EBUSY
              else if entries n \<noteq> [] then Inl ENOTEMPTY
              else Inr None)"

text \<open>Linux keeps the permission and sticky bits of a \<^verbatim>\<open>mkdir\<close> mode, less the umask.\<close>

definition sys_mkdir :: "string \<Rightarrow> mode \<Rightarrow> world \<Rightarrow> errno option \<times> world" where
  "sys_mkdir s m w = entry_call SysMkdir s (\<lambda>p v. case v of
     Some n \<Rightarrow> Inl EEXIST
   | None \<Rightarrow> Inr (Some (Dir (m AND 1023 AND NOT (umask w)) [] []))) w"

definition sys_symlink :: "string \<Rightarrow> string \<Rightarrow> world \<Rightarrow> errno option \<times> world" where
  "sys_symlink l s = entry_call SysSymlink s (\<lambda>p v. case v of
     Some n \<Rightarrow> Inl EEXIST
   | None \<Rightarrow> Inr (Some (Lnk l)))"

definition sys_readlink :: "string \<Rightarrow> nat \<Rightarrow> world \<Rightarrow> errno + string" where
  "sys_readlink s sz w = (case refuse w SysReadlink s of
     Some e \<Rightarrow> Inl e
   | None \<Rightarrow> (case resolve w False s of
       Inl e \<Rightarrow> Inl e
     | Inr p \<Rightarrow> (case lookup (fs w) p of
         None \<Rightarrow> Inl ENOENT
       | Some n \<Rightarrow> (case n of Lnk l \<Rightarrow> Inr (take sz l) | _ \<Rightarrow> Inl EINVAL))))"

text \<open>\<^verbatim>\<open>getxattr\<close> of a directory: the length of the value, or ERANGE if the buffer is too small.\<close>

definition sys_getxattr :: "string \<Rightarrow> string \<Rightarrow> nat \<Rightarrow> world \<Rightarrow> errno + nat" where
  "sys_getxattr s name sz w = (case refuse w SysGetxattr s of
     Some e \<Rightarrow> Inl e
   | None \<Rightarrow> (case resolve w True s of
       Inl e \<Rightarrow> Inl e
     | Inr p \<Rightarrow> (case lookup (fs w) p of
         None \<Rightarrow> Inl ENOENT
       | Some n \<Rightarrow> (case n of
           Dir m x es \<Rightarrow> (case map_of x name of
             None \<Rightarrow> Inl ENODATA
           | Some v \<Rightarrow> if sz < length v then Inl ERANGE else Inr (length v))
         | _ \<Rightarrow> Inl ENODATA))))"

text \<open>
  \<^verbatim>\<open>open\<close> for reading and for writing (\<^verbatim>\<open>O_CREAT | O_TRUNC\<close>), on regular files; the descriptor is
  the resolved path. Opening a fifo or a device is not modelled and answers ENXIO.
\<close>

definition sys_open_read :: "string \<Rightarrow> world \<Rightarrow> errno + bytes" where
  "sys_open_read s w = (case refuse w SysOpenRead s of
     Some e \<Rightarrow> Inl e
   | None \<Rightarrow> (case resolve w True s of
       Inl e \<Rightarrow> Inl e
     | Inr p \<Rightarrow> (case lookup (fs w) p of
         None \<Rightarrow> Inl ENOENT
       | Some n \<Rightarrow> (case n of Reg m c \<Rightarrow> Inr c | _ \<Rightarrow> Inl ENXIO))))"

definition sys_open_write :: "string \<Rightarrow> mode \<Rightarrow> world \<Rightarrow> (errno + path) \<times> world" where
  "sys_open_write s m w = (case refuse w SysOpenWrite s of
     Some e \<Rightarrow> (Inl e, w)
   | None \<Rightarrow> (case resolve w True s of
       Inl e \<Rightarrow> (Inl e, w)
     | Inr p \<Rightarrow> (case lookup (fs w) p of
         None \<Rightarrow> (Inr p, w\<lparr>fs := put p (Some (Reg (m AND 4095 AND NOT (umask w)) [])) (fs w)\<rparr>)
       | Some n \<Rightarrow> (case n of
           Reg m' c \<Rightarrow> (Inr p, w\<lparr>fs := put p (Some (Reg m' [])) (fs w)\<rparr>)
         | Dir m' x es \<Rightarrow> (Inl EISDIR, w)
         | _ \<Rightarrow> (Inl ENXIO, w)))))"

text \<open>Appending to the file an open descriptor stands for.\<close>

definition fd_append :: "path \<Rightarrow> bytes \<Rightarrow> world \<Rightarrow> world" where
  "fd_append p b w = (case lookup (fs w) p of
     Some (Reg m c) \<Rightarrow> w\<lparr>fs := put p (Some (Reg m (c @ b))) (fs w)\<rparr>
   | _ \<Rightarrow> w)"

text \<open>One \<^verbatim>\<open>write\<close> of \<open>n > 0\<close> bytes accepts at least one and at most \<open>n\<close> of them.\<close>

definition accepted :: "world \<Rightarrow> nat \<Rightarrow> nat" where
  "accepted w n = max 1 (min n (wsize w n))"

lemma accepted_bounds: "0 < n \<Longrightarrow> 1 \<le> accepted w n \<and> accepted w n \<le> n"
  by (auto simp: accepted_def)


section \<open>The tree walk \<^verbatim>\<open>nftw\<close>\<close>

text \<open>
  The calls glibc's \<^verbatim>\<open>nftw\<close> makes with \<^verbatim>\<open>FTW_PHYS\<close>: a directory before its entries, or after them
  with \<^verbatim>\<open>FTW_DEPTH\<close>. An unreadable directory (EACCES) is reported as \<open>FTW_DNR\<close>, an entry that cannot
  be examined (EACCES, ENOENT) as \<open>FTW_NS\<close>; any other error ends the walk, which is the event
  \<open>Abort\<close>. The walk sees the tree as it is when it starts.
\<close>

datatype ftwflag = FTW_F | FTW_D | FTW_DNR | FTW_DP | FTW_NS | FTW_SL

datatype ftwev = Visit string stat ftwflag | Abort

definition no_stat :: stat where
  "no_stat = \<lparr>st_type = S_IFOTHER, st_perm = 0, st_rdev = (0, 0)\<rparr>"

fun ftw_node :: "(sysop \<Rightarrow> string \<Rightarrow> errno option) \<Rightarrow> bool \<Rightarrow> string \<Rightarrow> node \<Rightarrow> ftwev list"
  and ftw_entries :: "(sysop \<Rightarrow> string \<Rightarrow> errno option) \<Rightarrow> bool \<Rightarrow> string \<Rightarrow> (string \<times> node) list \<Rightarrow> ftwev list"
where
  "ftw_node rf depth s (Dir m x es) = (case rf SysOpendir s of
     Some e \<Rightarrow> if e = EACCES then [Visit s (stat_of (Dir m x es)) FTW_DNR] else [Abort]
   | None \<Rightarrow>
       if depth then ftw_entries rf depth s es @ [Visit s (stat_of (Dir m x es)) FTW_DP]
       else Visit s (stat_of (Dir m x es)) FTW_D # ftw_entries rf depth s es)"
| "ftw_node rf depth s (Lnk l) = [Visit s (stat_of (Lnk l)) FTW_SL]"
| "ftw_node rf depth s (Reg m c) = [Visit s (stat_of (Reg m c)) FTW_F]"
| "ftw_node rf depth s (Chr m a b) = [Visit s (stat_of (Chr m a b)) FTW_F]"
| "ftw_node rf depth s (Special m) = [Visit s (stat_of (Special m)) FTW_F]"
| "ftw_entries rf depth s [] = []"
| "ftw_entries rf depth s ((n, c) # es) =
     (let p = s @ SLASH # n in
      (case rf SysLstat p of
         Some e \<Rightarrow> if e = EACCES \<or> e = ENOENT then [Visit p no_stat FTW_NS] else [Abort]
       | None \<Rightarrow> ftw_node rf depth p c)) @ ftw_entries rf depth s es"

definition ftw_call :: "(string \<Rightarrow> stat \<Rightarrow> ftwflag \<Rightarrow> 's \<Rightarrow> int \<times> 's) \<Rightarrow> ftwev \<Rightarrow> 's \<Rightarrow> int \<times> 's" where
  "ftw_call visit ev s = (case ev of Abort \<Rightarrow> (-1, s) | Visit p sb flag \<Rightarrow> visit p sb flag s)"

lemma ftw_call_simps [simp]:
  "ftw_call visit (Visit p sb flag) s = visit p sb flag s"
  "ftw_call visit Abort s = (-1, s)"
  by (simp_all add: ftw_call_def)

definition nftw ::
  "world \<Rightarrow> bool \<Rightarrow> (string \<Rightarrow> stat \<Rightarrow> ftwflag \<Rightarrow> 's \<Rightarrow> int \<times> 's) \<Rightarrow> string \<Rightarrow> 's \<Rightarrow> int \<times> 's" where
  "nftw w depth visit dir s = (case sys_lstat dir w of
     Inl e \<Rightarrow> (-1, s)
   | Inr n \<Rightarrow> until_nonzero (ftw_call visit) (ftw_node (refuse w) depth dir n) s)"


section \<open>Mounts and processes\<close>

definition sys_mount :: "string \<Rightarrow> string \<Rightarrow> world \<Rightarrow> errno option \<times> world" where
  "sys_mount opts target w = (case mount_answer w opts target of
     Some e \<Rightarrow> (Some e, w)
   | None \<Rightarrow> (None, w\<lparr>mtab := (target, opts) # mtab w\<rparr>))"

fun drop_mount :: "string \<Rightarrow> (string \<times> string) list \<Rightarrow> (string \<times> string) list" where
  "drop_mount t [] = []"
| "drop_mount t ((m, opts) # ms) = (if m = t then ms else (m, opts) # drop_mount t ms)"

text \<open>\<^verbatim>\<open>umount2 (target, MNT_DETACH)\<close> takes away the newest mount on the target.\<close>

definition sys_umount2 :: "string \<Rightarrow> world \<Rightarrow> errno option \<times> world" where
  "sys_umount2 target w = (case refuse w SysUmount target of
     Some e \<Rightarrow> (Some e, w)
   | None \<Rightarrow> if target \<in> fst ` set (mtab w)
             then (None, w\<lparr>mtab := drop_mount target (mtab w)\<rparr>)
             else (Some EINVAL, w))"

text \<open>The macros of \<^verbatim>\<open>sys/wait.h\<close> on a wait status.\<close>

definition WTERMSIG :: "32 word \<Rightarrow> int" where "WTERMSIG st = uint (st AND 127)"
definition WIFEXITED :: "32 word \<Rightarrow> bool" where "WIFEXITED st \<longleftrightarrow> st AND 127 = 0"
definition WEXITSTATUS :: "32 word \<Rightarrow> int" where "WEXITSTATUS st = uint (drop_bit 8 (st AND 65280))"
definition WIFSIGNALED :: "32 word \<Rightarrow> bool" where
  "WIFSIGNALED st \<longleftrightarrow> 0 < sint (ucast ((st AND 127) + 1) :: 8 word) div 2"

text \<open>The macros as arithmetic on the status.\<close>

lemma WIFEXITED_mod: "WIFEXITED st \<longleftrightarrow> uint st mod 128 = 0"
proof -
  have "st AND 127 = take_bit 7 st" by (simp add: take_bit_eq_mask mask_eq_exp_minus_1)
  then show ?thesis
    by (simp add: WIFEXITED_def word_uint_eq_iff uint_mod_distrib take_bit_eq_mod)
qed

lemma WTERMSIG_mod: "WTERMSIG st = uint st mod 128"
proof -
  have "st AND 127 = take_bit 7 st" by (simp add: take_bit_eq_mask mask_eq_exp_minus_1)
  then show ?thesis by (simp add: WTERMSIG_def uint_mod_distrib take_bit_eq_mod)
qed

lemma WEXITSTATUS_div: "WEXITSTATUS st = uint st div 256 mod 256"
proof -
  have "drop_bit 8 (st AND 65280) = take_bit 8 (drop_bit 8 st)"
    by (simp add: take_bit_eq_mask mask_eq_exp_minus_1)
  then show ?thesis
    by (simp add: WEXITSTATUS_def uint_mod_distrib uint_div_distrib take_bit_eq_mod drop_bit_eq_div)
qed

lemma WIFSIGNALED_range:
  assumes "0 < uint st mod 128" "uint st mod 128 < 127"
  shows "WIFSIGNALED st"
proof -
  have v: "uint (st AND 127) = uint st mod 128" using WTERMSIG_mod by (simp add: WTERMSIG_def)
  then have u: "uint ((st AND 127) + 1) = uint st mod 128 + 1"
    using assms(2) by (subst uint_word_ariths) (simp add: v)
  have "uint (ucast ((st AND 127) + 1) :: 8 word) = uint st mod 128 + 1"
    using assms(2) by (simp add: unsigned_ucast_eq u take_bit_int_eq_self)
  then have "sint (ucast ((st AND 127) + 1) :: 8 word) = uint st mod 128 + 1"
    using assms(2) by (simp add: sint_uint signed_take_bit_int_eq_self)
  then show ?thesis using assms(1) by (simp add: WIFSIGNALED_def)
qed

lemma uint_small: "n < 2 ^ 32 \<Longrightarrow> uint (word_of_nat n :: 32 word) = int n"
  by (simp add: unsigned_of_nat take_bit_nat_eq_self)

end
