(* ===== verification/Cow.thy ===== *)
theory Cow
  imports Kernel
begin

text \<open>
  The first half of \<^verbatim>\<open>src/c/agentbox_cow.c\<close>: mounting and unmounting the overlay, the recursive
  purge, and the helpers that commit and diff share. The main result is that a purge removes
  exactly the subtree its path names (\<open>cow_purge_removes\<close>).
\<close>

section \<open>Mount and unmount\<close>

definition mount_opts :: "string \<Rightarrow> string \<Rightarrow> string \<Rightarrow> string" where
  "mount_opts lowerdir_stack upperdir workdir =
     ''lowerdir='' @ lowerdir_stack @ '',upperdir='' @ upperdir @ '',workdir='' @ workdir @ '',userxattr''"

definition agentbox_cow_mount :: "string \<Rightarrow> string \<Rightarrow> string \<Rightarrow> string \<Rightarrow> world \<Rightarrow> errcode \<times> world" where
  "agentbox_cow_mount lowerdir_stack upperdir workdir merged w =
     (let opts = mount_opts lowerdir_stack upperdir workdir in
      if PATH_MAX * 4 \<le> length opts then (AGENTBOX_ERR_INVALID_ARGUMENT, w)
      else (case sys_mount opts merged w of
          (None, w1) \<Rightarrow> (AGENTBOX_OK, w1)
        | (Some mount_errno, w1) \<Rightarrow>
            if mount_errno \<noteq> EPERM \<and> mount_errno \<noteq> EINVAL then (AGENTBOX_ERR_MOUNT_FAILED, w1)
            else (case fuse_answer w1 opts merged of
                None \<Rightarrow> (AGENTBOX_ERR_MOUNT_FAILED, w1)
              | Some status \<Rightarrow>
                  if \<not> WIFEXITED status \<or> WEXITSTATUS status \<noteq> 0 then (AGENTBOX_ERR_MOUNT_FAILED, w1)
                  else (AGENTBOX_OK, w1\<lparr>mtab := (merged, opts) # mtab w1\<rparr>))))"

definition agentbox_cow_unmount :: "string \<Rightarrow> world \<Rightarrow> errcode \<times> world" where
  "agentbox_cow_unmount merged w = (case sys_umount2 merged w of
     (None, w1) \<Rightarrow> (AGENTBOX_OK, w1)
   | (Some e, w1) \<Rightarrow> (if e = EINVAL then AGENTBOX_OK else AGENTBOX_ERR_MOUNT_FAILED, w1))"


section \<open>Purge\<close>

definition purge_visit :: "string \<Rightarrow> stat \<Rightarrow> ftwflag \<Rightarrow> world \<Rightarrow> int \<times> world" where
  "purge_visit path sb typeflag w =
     (if typeflag = FTW_DP \<or> typeflag = FTW_D
      then (case sys_rmdir path w of
              (None, w1) \<Rightarrow> (0, w1)
            | (Some e, w1) \<Rightarrow> (if e \<noteq> ENOENT then -1 else 0, w1))
      else (case sys_unlink path w of
              (None, w1) \<Rightarrow> (0, w1)
            | (Some e, w1) \<Rightarrow> (if e \<noteq> ENOENT then -1 else 0, w1)))"

definition agentbox_cow_purge :: "string \<Rightarrow> world \<Rightarrow> errcode \<times> world" where
  "agentbox_cow_purge dir w = (case sys_lstat dir w of
     Inl e \<Rightarrow> (if e = ENOENT then AGENTBOX_OK else AGENTBOX_ERR_IO, w)
   | Inr n \<Rightarrow>
       if st_type (stat_of n) \<noteq> S_IFDIR
       then (case sys_unlink dir w of
               (None, w1) \<Rightarrow> (AGENTBOX_OK, w1)
             | (Some e, w1) \<Rightarrow> (if e \<noteq> ENOENT then AGENTBOX_ERR_IO else AGENTBOX_OK, w1))
       else (let (rc, w1) = nftw w True purge_visit dir w
             in (if rc \<noteq> 0 then AGENTBOX_ERR_IO else AGENTBOX_OK, w1)))"


lemma purge_visit_simps:
  "purge_visit path sb FTW_DP w = (case sys_rmdir path w of
     (None, w1) \<Rightarrow> (0, w1) | (Some e, w1) \<Rightarrow> (if e \<noteq> ENOENT then -1 else 0, w1))"
  "purge_visit path sb FTW_F w = (case sys_unlink path w of
     (None, w1) \<Rightarrow> (0, w1) | (Some e, w1) \<Rightarrow> (if e \<noteq> ENOENT then -1 else 0, w1))"
  "purge_visit path sb FTW_SL w = (case sys_unlink path w of
     (None, w1) \<Rightarrow> (0, w1) | (Some e, w1) \<Rightarrow> (if e \<noteq> ENOENT then -1 else 0, w1))"
  by (simp_all add: purge_visit_def)


section \<open>Helpers shared by commit and diff\<close>

definition dir_is_opaque :: "string \<Rightarrow> world \<Rightarrow> bool" where
  "dir_is_opaque path w \<longleftrightarrow>
     (case sys_getxattr path ''user.overlay.opaque'' 8 w of Inl e \<Rightarrow> False | Inr n \<Rightarrow> 0 < n)
   \<or> (case sys_getxattr path ''trusted.overlay.opaque'' 8 w of Inl e \<Rightarrow> False | Inr n \<Rightarrow> 0 < n)"

definition is_whiteout :: "stat \<Rightarrow> bool" where
  "is_whiteout sb \<longleftrightarrow> st_type sb = S_IFCHR \<and> fst (st_rdev sb) = 0 \<and> snd (st_rdev sb) = 0"

text \<open>\<^verbatim>\<open>mkdir_p\<close>: every prefix that ends before a slash, then the path; results are ignored.\<close>

definition mkdir_p :: "string \<Rightarrow> mode \<Rightarrow> world \<Rightarrow> world" where
  "mkdir_p path m w =
     (let tmp = snprintf PATH_MAX path;
          w1 = fold (\<lambda>i w. snd (sys_mkdir (take i tmp) 493 w)) (filter (\<lambda>i. tmp ! i = SLASH) [1..<length tmp]) w
      in snd (sys_mkdir tmp m w1))"

function write_loop :: "string \<Rightarrow> path \<Rightarrow> bytes \<Rightarrow> world \<Rightarrow> errcode \<times> world" where
  "write_loop dst fd buf w =
     (if buf = [] then (AGENTBOX_OK, w)
      else (case refuse w SysWrite dst of
          Some e \<Rightarrow> (AGENTBOX_ERR_IO, w)
        | None \<Rightarrow> (let n = accepted w (length buf)
                   in write_loop dst fd (drop n buf) (fd_append fd (take n buf) w))))"
  by pat_completeness auto
termination
  by (relation "measure (\<lambda>(dst, fd, buf, w). length buf)") (auto simp: accepted_def)

function copy_loop :: "string \<Rightarrow> string \<Rightarrow> path \<Rightarrow> bytes \<Rightarrow> world \<Rightarrow> errcode \<times> world" where
  "copy_loop src dst fd rest w =
     (case refuse w SysRead src of
        Some e \<Rightarrow> (AGENTBOX_ERR_IO, w)
      | None \<Rightarrow>
          if rest = [] then (AGENTBOX_OK, w)
          else (let (rc, w1) = write_loop dst fd (take 65536 rest) w in
                if rc \<noteq> AGENTBOX_OK then (rc, w1) else copy_loop src dst fd (drop 65536 rest) w1))"
  by pat_completeness auto
termination
  by (relation "measure (\<lambda>(src, dst, fd, rest, w). length rest)") auto

definition copy_regular_file :: "string \<Rightarrow> string \<Rightarrow> mode \<Rightarrow> world \<Rightarrow> errcode \<times> world" where
  "copy_regular_file src dst m w = (case sys_open_read src w of
     Inl e \<Rightarrow> (AGENTBOX_ERR_IO, w)
   | Inr content \<Rightarrow>
       (let w1 = snd (sys_unlink dst w) in
        (case sys_open_write dst m w1 of
           (Inl e, w2) \<Rightarrow> (AGENTBOX_ERR_IO, w2)
         | (Inr fd, w2) \<Rightarrow> copy_loop src dst fd content w2)))"

declare write_loop.simps [simp del] copy_loop.simps [simp del]

text \<open>
  The file-scope variables of \<^verbatim>\<open>agentbox_cow.c\<close>, through which the \<^verbatim>\<open>nftw\<close> callbacks talk to
  their callers. The growable array of diff entries is a list, \<open>g_diff_count\<close> its length.
\<close>

record cow_globals =
  g_merge_layer_root :: string
  g_merge_target_root :: string
  g_merge_error :: errcode
  g_diff_entries :: "(string \<times> char) list"
  g_diff_cap :: nat
  g_diff_error :: errcode

definition rel_from_layer :: "cow_globals \<Rightarrow> string \<Rightarrow> string option" where
  "rel_from_layer g path =
     (if \<not> strncmp_eq path (g_merge_layer_root g) then None
      else Some (dropWhile (\<lambda>c. c = SLASH) (drop (length (g_merge_layer_root g)) path)))"


section \<open>Well-formed trees\<close>

text \<open>
  What the kernel guarantees of every tree it stores: distinct, proper names in a directory and
  link targets without NUL.
\<close>

fun wf_node :: "node \<Rightarrow> bool"
  and wf_entries :: "(string \<times> node) list \<Rightarrow> bool"
where
  "wf_node (Dir m x es) = wf_entries es"
| "wf_node (Lnk l) = no_nul l"
| "wf_node (Reg m c) = True"
| "wf_node (Chr m a b) = True"
| "wf_node (Special m) = True"
| "wf_entries [] = True"
| "wf_entries ((n, c) # es) = (wf_name n \<and> n \<notin> fst ` set es \<and> wf_node c \<and> wf_entries es)"

lemma wf_entries_distinct: "wf_entries es \<Longrightarrow> distinct (map fst es)"
  by (induction es) force+

lemma wf_entries_iff:
  "wf_entries es \<longleftrightarrow> distinct (map fst es) \<and> (\<forall>(n, c) \<in> set es. wf_name n \<and> wf_node c)"
  by (induction es) force+

lemma wf_node_lookup: "wf_node t \<Longrightarrow> lookup t p = Some n \<Longrightarrow> wf_node n"
proof (induction t p rule: lookup.induct)
  case (2 t k p)
  from 2(3) obtain c where c: "map_of (entries t) k = Some c" "lookup c p = Some n"
    by (auto split: option.splits)
  then have "wf_node c" using 2(2) map_of_in_set [OF c(1)] by (cases t) (auto simp: wf_entries_iff)
  with 2(1) c show ?case by blast
qed auto

lemma wf_node_put:
  assumes "wf_node t" "\<And>n. v = Some n \<Longrightarrow> wf_node n" "list_all wf_name p"
  shows "wf_node (put p v t)"
  using assms
proof (induction p v t rule: put.induct)
  case (2 n v m x es)
  then show ?case
    using set_update_subset [of n "the v" es] set_delete_subset [of n es]
    by (fastforce simp: wf_entries_iff distinct_keys_update distinct_keys_delete split: option.splits)
next
  case (3 n k p v m x es)
  show ?case
  proof (cases "map_of es n")
    case (Some c)
    have "wf_node c" using 3(2) map_of_in_set [OF Some] by (auto simp: wf_entries_iff)
    then have "wf_node (put (k # p) v c)" using 3 Some by auto
    then show ?thesis
      using Some 3(2,4) set_update_subset [of n "put (k # p) v c" es]
      by (auto simp: wf_entries_iff distinct_keys_update)
  qed (use 3 in auto)
qed auto


section \<open>A purge removes the subtree\<close>

definition quiet :: "world \<Rightarrow> bool" where
  "quiet w \<longleftrightarrow> (\<forall>op s. refuse w op s = None)"

lemma quiet_calls [simp]:
  assumes "quiet w"
  shows "refuse w SysLstat s = None" "refuse w SysOpendir s = None" "refuse w SysUnlink s = None"
    "refuse w SysRmdir s = None" "refuse w SysMkdir s = None" "refuse w SysOpenRead s = None"
    "refuse w SysOpenWrite s = None" "refuse w SysRead s = None" "refuse w SysWrite s = None"
    "refuse w SysReadlink s = None" "refuse w SysSymlink s = None" "refuse w SysGetxattr s = None"
    "refuse w SysUmount s = None" "refuse w SysStat s = None"
  using assms by (simp_all add: quiet_def)

text \<open>The path string \<open>s\<close> names the path \<open>p\<close>, whose parent is a directory.\<close>

definition names :: "world \<Rightarrow> string \<Rightarrow> path \<Rightarrow> bool" where
  "names w s p \<longleftrightarrow> p \<noteq> [] \<and> comps s = p \<and> plain p \<and> dir_at (fs w) (butlast p)"

lemma resolve_names: "names w s p \<Longrightarrow> resolve w False s = Inr p"
  using namei_under_dirs [of p "fs w" "[]" False] by (auto simp: names_def resolve_def)

lemma resolve_names_follow:
  "names w s p \<Longrightarrow> (\<And>l. lookup (fs w) p \<noteq> Some (Lnk l)) \<Longrightarrow> resolve w True s = Inr p"
  using namei_under_dirs [of p "fs w" "[]" True] by (auto simp: names_def resolve_def)

lemma names_nonempty: "names w s p \<Longrightarrow> p \<noteq> []"
  by (simp add: names_def)

lemma quiet_lstat:
  "quiet w \<Longrightarrow> names w s p \<Longrightarrow>
     sys_lstat s w = (case lookup (fs w) p of None \<Rightarrow> Inl ENOENT | Some n \<Rightarrow> Inr n)"
  by (simp add: sys_lstat_def quiet_def resolve_names)

lemma quiet_entry_call:
  "quiet w \<Longrightarrow> names w s p \<Longrightarrow>
     entry_call op s answer w = (case answer p (lookup (fs w) p) of
       Inl e \<Rightarrow> (Some e, w) | Inr v \<Rightarrow> (None, w\<lparr>fs := put p v (fs w)\<rparr>))"
  by (simp add: entry_call_def quiet_def resolve_names)

lemma quiet_update_fs [simp]: "quiet (w\<lparr>fs := t\<rparr>) = quiet w"
  by (simp add: quiet_def)

lemma put_put_same: "p \<noteq> [] \<Longrightarrow> put p v (put p (Some d) t) = put p v t"
proof (induction p v t rule: put.induct)
  case (2 n v m x es)
  then show ?case
    by (auto simp: update_update_same delete_update_same split: option.splits)
qed (auto simp: update_update_same split: option.splits)

lemma put_lookup_same: "lookup t p = Some d \<Longrightarrow> put p (Some d) t = t"
proof (induction p "Some d" t rule: put.induct)
  case (2 n m x es)
  then show ?case by (auto simp: update_idem split: option.splits)
next
  case (3 n k p m x es)
  then show ?case by (auto simp: update_idem split: option.splits)
qed auto

lemma put_none_absent: "lookup t p = None \<Longrightarrow> put p None t = t"
proof (induction p "None :: node option" t rule: put.induct)
  case (2 n m x es)
  then show ?case by (auto simp: map_of_eq_None_iff split: option.splits)
next
  case (3 n k p m x es)
  then show ?case by (auto simp: update_idem split: option.splits)
qed auto

lemma put_below:
  "lookup t p = Some d \<Longrightarrow> p \<noteq> [] \<Longrightarrow> q \<noteq> [] \<Longrightarrow> put (p @ q) v t = put p (Some (put q v d)) t"
proof (induction p v t rule: put.induct)
  case (2 n v m x es)
  then obtain k r where "q = k # r" by (cases q) auto
  with 2 show ?case by (auto split: option.splits)
next
  case (3 n k p v m x es)
  then show ?case by (auto split: option.splits)
qed (auto simp: lookup_not_dir)


lemma names_child:
  "names w s p \<Longrightarrow> dir_at (fs w) p \<Longrightarrow> wf_name n \<Longrightarrow> names w (s @ SLASH # n) (p @ [n])"
  by (auto simp: names_def comps_join comps_name wf_name_def)

lemma names_put_parallel:
  "names w s p \<Longrightarrow> q \<parallel> butlast p \<Longrightarrow> names (w\<lparr>fs := put q v (fs w)\<rparr>) s p"
  by (auto simp: names_def dir_at_def lookup_put_parallel)

lemma names_put_self: "names w s p \<Longrightarrow> names (w\<lparr>fs := put p v (fs w)\<rparr>) s p"
  by (auto simp: names_def dir_at_put_butlast)

lemma lookup_put_names [simp]: "names w s p \<Longrightarrow> lookup (put p v (fs w)) p = v"
  by (simp add: names_def lookup_put_self)

lemma sys_unlink_names:
  "quiet w \<Longrightarrow> names w s p \<Longrightarrow> sys_unlink s w = (case lookup (fs w) p of
     None \<Rightarrow> (Some ENOENT, w)
   | Some n \<Rightarrow> if is_dir n then (Some EISDIR, w) else (None, w\<lparr>fs := put p None (fs w)\<rparr>))"
  by (simp add: sys_unlink_def quiet_entry_call split: option.splits)

lemma sys_rmdir_names:
  "quiet w \<Longrightarrow> names w s p \<Longrightarrow> lookup (fs w) p = Some (Dir m x []) \<Longrightarrow>
     sys_rmdir s w = (None, w\<lparr>fs := put p None (fs w)\<rparr>)"
  by (simp add: sys_rmdir_def quiet_entry_call names_nonempty)

text \<open>
  The post-order walk takes the entries of a directory away one by one, each with everything
  below it, so that the directory is empty when its own turn comes.
\<close>

lemma purge_walk:
  assumes "quiet w"
  shows purge_node: "names w s p \<Longrightarrow> lookup (fs w) p = Some c \<Longrightarrow> wf_node c \<Longrightarrow>
      until_nonzero (ftw_call purge_visit) (ftw_node (refuse w) True s c) w
        = (0, w\<lparr>fs := put p None (fs w)\<rparr>)"
    and purge_entries: "names w s p \<Longrightarrow> lookup (fs w) p = Some (Dir m x es) \<Longrightarrow> wf_entries es \<Longrightarrow>
      until_nonzero (ftw_call purge_visit) (ftw_entries (refuse w) True s es) w
        = (0, w\<lparr>fs := put p (Some (Dir m x [])) (fs w)\<rparr>)"
  using assms
proof (induction c and es arbitrary: w s p and w s p m x rule: wf_node_wf_entries.induct)
  case (1 m x es)
  let ?w' = "w\<lparr>fs := put p (Some (Dir m x [])) (fs w)\<rparr>"
  have "until_nonzero (ftw_call purge_visit) (ftw_entries (refuse w) True s es) w = (0, ?w')"
    by (rule "1.IH" [OF "1.prems"(1,2) _ "1.prems"(4)]) (use "1.prems"(3) in simp)
  moreover have "names ?w' s p" "quiet ?w'" "lookup (fs ?w') p = Some (Dir m x [])"
    using 1 by (simp_all add: names_put_self)
  then have "sys_rmdir s ?w' = (None, w\<lparr>fs := put p None (fs w)\<rparr>)"
    by (simp add: sys_rmdir_names put_put_same names_nonempty)
  ultimately show ?case
    using 1(5) by (simp add: until_nonzero_append_ok purge_visit_simps)
next
  case (7 n c es)
  have n: "wf_name n" "n \<notin> fst ` set es" "wf_node c" "wf_entries es" using 7(5) by auto
  let ?q = "p @ [n]" let ?s = "s @ SLASH # n"
  let ?w1 = "w\<lparr>fs := put ?q None (fs w)\<rparr>"
  have nm: "names w ?s ?q" using 7(3,4) n by (auto intro: names_child)
  have c: "lookup (fs w) ?q = Some c" using 7(4) by (simp add: lookup_append)
  have first: "until_nonzero (ftw_call purge_visit) (ftw_node (refuse w) True ?s c) w = (0, ?w1)"
    using 7(1) [OF nm c n(3) 7(6)] .
  have fs1: "put ?q None (fs w) = put p (Some (Dir m x es)) (fs w)"
    using put_below [OF 7(4) names_nonempty [OF 7(3)], of "[n]" None] n(2)
    by (simp add: delete_hd)
  have "names ?w1 s p" "lookup (fs ?w1) p = Some (Dir m x es)"
    unfolding fs1 using 7(3) by (simp_all add: names_put_self)
  then have "until_nonzero (ftw_call purge_visit) (ftw_entries (refuse ?w1) True s es) ?w1
      = (0, ?w1\<lparr>fs := put p (Some (Dir m x [])) (fs ?w1)\<rparr>)"
    using 7(2) [OF _ _ n(4)] 7(6) by (simp only: quiet_update_fs)
  then have "until_nonzero (ftw_call purge_visit) (ftw_entries (refuse w) True s es) ?w1
      = (0, w\<lparr>fs := put p (Some (Dir m x [])) (fs w)\<rparr>)"
    by (simp add: fs1 put_put_same names_nonempty [OF 7(3)])
  then show ?case
    using first 7(6) by (simp add: until_nonzero_append_ok Let_def)
qed (auto simp: purge_visit_simps sys_unlink_names put_lookup_same)

lemma cow_purge_removes:
  assumes "quiet w" "names w s p" "wf_node (fs w)"
  shows "agentbox_cow_purge s w = (AGENTBOX_OK, w\<lparr>fs := put p None (fs w)\<rparr>)"
proof (cases "lookup (fs w) p")
  case None
  then show ?thesis
    using assms by (simp add: agentbox_cow_purge_def quiet_lstat put_none_absent)
next
  case (Some c)
  have "wf_node c" using wf_node_lookup [OF assms(3) Some] .
  from purge_node [OF assms(1,2) Some this] Some assms show ?thesis
    by (cases "is_dir c")
      (auto simp: agentbox_cow_purge_def quiet_lstat nftw_def sys_unlink_names)
qed

end
