(* ===== verification/CowMerge.thy ===== *)
theory CowMerge
  imports Cow
begin

text \<open>
  \<^verbatim>\<open>agentbox_cow_commit_merge\<close> of \<^verbatim>\<open>src/c/agentbox_cow.c\<close>: the pre-order walk over one sealed layer
  that replays it onto the workspace, layer by layer. A pure recursion over the layer's tree
  (\<open>graft\<close>, \<open>graft_all\<close>) says what the walk does to the target, and the refinement lemmas show
  that the walk over path strings, with its system calls, computes it.
\<close>

section \<open>The code\<close>

type_synonym merge_state = "cow_globals \<times> world"

definition merge_visit :: "string \<Rightarrow> stat \<Rightarrow> ftwflag \<Rightarrow> merge_state \<Rightarrow> int \<times> merge_state" where
  "merge_visit path sb typeflag = (\<lambda>(g, w).
     if typeflag = FTW_DNR \<or> typeflag = FTW_NS
     then (-1, (g\<lparr>g_merge_error := AGENTBOX_ERR_IO\<rparr>, w))
     else (case rel_from_layer g path of
         None \<Rightarrow> (0, (g, w))
       | Some rel \<Rightarrow>
           if rel = [] then (0, (g, w))
           else (let target = snprintf PATH_MAX (g_merge_target_root g @ SLASH # rel) in
             if is_whiteout sb
             then (let (rc, w1) = agentbox_cow_purge target w in
                   if rc \<noteq> AGENTBOX_OK then (-1, (g\<lparr>g_merge_error := rc\<rparr>, w1)) else (0, (g, w1)))
             else if st_type sb = S_IFDIR
             then (let (rc, w1) = (if dir_is_opaque path w then agentbox_cow_purge target w
                                   else (AGENTBOX_OK, w)) in
                   if rc \<noteq> AGENTBOX_OK then (-1, (g\<lparr>g_merge_error := rc\<rparr>, w1))
                   else (0, (g, mkdir_p target (st_perm sb AND 4095) w1)))
             else if st_type sb = S_IFLNK
             then (case sys_readlink path (PATH_MAX - 1) w of
                     Inl e \<Rightarrow> (-1, (g\<lparr>g_merge_error := AGENTBOX_ERR_IO\<rparr>, w))
                   | Inr link_target \<Rightarrow>
                       (let w1 = snd (sys_unlink target w) in
                        (case sys_symlink (c_str link_target) target w1 of
                           (Some e, w2) \<Rightarrow> (-1, (g\<lparr>g_merge_error := AGENTBOX_ERR_IO\<rparr>, w2))
                         | (None, w2) \<Rightarrow> (0, (g, w2)))))
             else if st_type sb = S_IFREG
             then (let (rc, w1) = copy_regular_file path target (st_perm sb AND 4095) w in
                   if rc \<noteq> AGENTBOX_OK then (-1, (g\<lparr>g_merge_error := rc\<rparr>, w1)) else (0, (g, w1)))
             else (0, (g, w)))))"

fun agentbox_cow_commit_merge :: "string list \<Rightarrow> string \<Rightarrow> merge_state \<Rightarrow> errcode \<times> merge_state" where
  "agentbox_cow_commit_merge [] target_dir (g, w) = (AGENTBOX_OK, (g, w))"
| "agentbox_cow_commit_merge (layer # layers) target_dir (g, w) =
     (let g1 = g\<lparr>g_merge_layer_root := layer, g_merge_target_root := target_dir,
                 g_merge_error := AGENTBOX_OK\<rparr>;
          (rc, (g2, w2)) = nftw w False merge_visit layer (g1, w)
      in if rc \<noteq> 0
         then (if g_merge_error g2 \<noteq> AGENTBOX_OK then g_merge_error g2 else AGENTBOX_ERR_IO, (g2, w2))
         else agentbox_cow_commit_merge layers target_dir (g2, w2))"


section \<open>What one layer does to a directory\<close>

text \<open>The two attributes the code tests, each present with a value of 1 to 8 bytes.\<close>

definition opaque_attr :: "(string \<times> bytes) list \<Rightarrow> string \<Rightarrow> bool" where
  "opaque_attr x name \<longleftrightarrow> (case map_of x name of None \<Rightarrow> False | Some v \<Rightarrow> v \<noteq> [] \<and> length v \<le> 8)"

definition opaque_xattr :: "(string \<times> bytes) list \<Rightarrow> bool" where
  "opaque_xattr x \<longleftrightarrow> opaque_attr x ''user.overlay.opaque'' \<or> opaque_attr x ''trusted.overlay.opaque''"

text \<open>
  \<open>graft um c n d\<close> replays the layer entry \<open>c\<close> onto the entry \<open>n\<close> of the directory \<open>d\<close>,
  \<open>graft_all um es d\<close> a whole listing; \<open>um\<close> is the umask of the process.
\<close>

fun graft :: "mode \<Rightarrow> node \<Rightarrow> string \<Rightarrow> node \<Rightarrow> node"
  and graft_all :: "mode \<Rightarrow> (string \<times> node) list \<Rightarrow> node \<Rightarrow> node"
where
  "graft um (Chr m a b) n d = (if a = 0 \<and> b = 0 then put [n] None d else d)"
| "graft um (Special m) n d = d"
| "graft um (Reg m c) n d = put [n] (Some (Reg (m AND 4095 AND NOT um) c)) (put [n] None d)"
| "graft um (Lnk l) n d = put [n] (Some (Lnk l)) (put [n] None d)"
| "graft um (Dir m x es) n d =
     (let d1 = (if opaque_xattr x then put [n] None d else d);
          sub = (case lookup d1 [n] of Some k \<Rightarrow> k | None \<Rightarrow> Dir (m AND 1023 AND NOT um) [] [])
      in put [n] (Some (graft_all um es sub)) d1)"
| "graft_all um [] d = d"
| "graft_all um ((n, c) # es) d = graft_all um es (graft um c n d)"

text \<open>
  When the replay goes through: no file or link of the layer meets a directory of the target,
  and no transparent directory of the layer meets anything but a directory.
\<close>

fun compat :: "node \<Rightarrow> node option \<Rightarrow> bool"
  and compat_all :: "(string \<times> node) list \<Rightarrow> node option \<Rightarrow> bool"
where
  "compat (Chr m a b) lo = True"
| "compat (Special m) lo = True"
| "compat (Reg m c) lo = (case lo of None \<Rightarrow> True | Some k \<Rightarrow> \<not> is_dir k)"
| "compat (Lnk l) lo = (case lo of None \<Rightarrow> True | Some k \<Rightarrow> \<not> is_dir k)"
| "compat (Dir m x es) lo =
     (let lo' = (if opaque_xattr x then None else lo)
      in (case lo' of None \<Rightarrow> True | Some k \<Rightarrow> is_dir k) \<and> compat_all es lo')"
| "compat_all [] lo = True"
| "compat_all ((n, c) # es) lo =
     (compat c (case lo of None \<Rightarrow> None | Some d \<Rightarrow> lookup d [n]) \<and> compat_all es lo)"

text \<open>
  Every path of the layer still fits into \<^verbatim>\<open>PATH_MAX\<close> when it is written below the target, whose
  path has \<open>k\<close> bytes, and every link target into the buffer of \<^verbatim>\<open>merge_visit\<close>.
\<close>

fun fits :: "nat \<Rightarrow> node \<Rightarrow> bool"
  and fits_all :: "nat \<Rightarrow> (string \<times> node) list \<Rightarrow> bool"
where
  "fits k (Dir m x es) = fits_all k es"
| "fits k (Lnk l) = (length l < PATH_MAX)"
| "fits k (Reg m c) = True"
| "fits k (Chr m a b) = True"
| "fits k (Special m) = True"
| "fits_all k [] = True"
| "fits_all k ((n, c) # es) = (k + 1 + length n < PATH_MAX \<and> fits (k + 1 + length n) c \<and> fits_all k es)"


section \<open>Grafting, entry by entry\<close>

lemma put_singleton_other: "n \<noteq> k \<Longrightarrow> lookup (put [n] v d) (k # p) = lookup d (k # p)"
  by (rule lookup_put_parallel) (simp add: parallel_def)

lemma put_singleton_same: "is_dir d \<Longrightarrow> lookup (put [n] v d) [n] = v"
  using lookup_put_self [of d "[n]" v] by (simp add: dir_at_def)

lemma graft_other: "n \<noteq> k \<Longrightarrow> lookup (graft um c n d) (k # p) = lookup d (k # p)"
  by (cases c) (simp_all add: put_singleton_other Let_def del: lookup.simps)

lemma is_dir_graft [simp]: "is_dir (graft um c n d) = is_dir d"
  by (cases c) (simp_all add: Let_def)

lemma is_dir_graft_all [simp]: "is_dir (graft_all um es d) = is_dir d"
proof (induction es arbitrary: d)
  case (Cons e es)
  then show ?case by (cases e) simp
qed simp

lemma compat_all_cong:
  "(\<And>n. n \<in> fst ` set es \<Longrightarrow> lookup d [n] = lookup d' [n]) \<Longrightarrow> compat_all es (Some d) = compat_all es (Some d')"
  by (induction es) auto


section \<open>Paths below the layer and below the target\<close>

definition slashed :: "path \<Rightarrow> string" where
  "slashed r = concat (map (\<lambda>n. SLASH # n) r)"

lemma slashed_simps [simp]: "slashed [] = []" "slashed (n # r) = SLASH # n @ slashed r"
  "slashed (r @ q) = slashed r @ slashed q"
  by (simp_all add: slashed_def)

lemma comps_slashed: "list_all wf_name r \<Longrightarrow> comps (s @ slashed r) = comps s @ r"
proof (induction r arbitrary: s)
  case (Cons n r)
  then show ?case
    using Cons.IH [of "s @ SLASH # n"] by (simp add: comps_join comps_name)
qed simp

lemma wf_name_plain_all: "list_all wf_name p \<Longrightarrow> plain p"
  by (induction p) (auto simp: wf_name_def)

lemma wf_name_no_slash: "wf_name n \<Longrightarrow> dropWhile (\<lambda>c. c = SLASH) (n @ s) = n @ s"
  by (cases n) (auto simp: wf_name_def)

lemma rel_from_layer_below:
  assumes "g_merge_layer_root g = lroot" "list_all wf_name (k # r)"
  shows "rel_from_layer g (lroot @ slashed (k # r)) = Some (k @ slashed r)"
  using assms by (simp add: rel_from_layer_def strncmp_eq_def wf_name_no_slash)

text \<open>
  The situation in the middle of the walk: layer and target are disjoint, and the walk stands at
  the directory \<open>r\<close> of both.
\<close>

definition merging :: "string \<Rightarrow> path \<Rightarrow> string \<Rightarrow> path \<Rightarrow> path \<Rightarrow> cow_globals \<Rightarrow> world \<Rightarrow> bool" where
  "merging lroot L troot T r g w \<longleftrightarrow>
     quiet w \<and> wf_node (fs w) \<and> g_merge_layer_root g = lroot \<and> g_merge_target_root g = troot
     \<and> comps lroot = L \<and> comps troot = T \<and> list_all wf_name L \<and> list_all wf_name T \<and> list_all wf_name r
     \<and> L \<parallel> T \<and> dir_at (fs w) (L @ r) \<and> dir_at (fs w) (T @ r)"

lemma parallel_nonempty: "p \<parallel> q \<Longrightarrow> p \<noteq> [] \<and> q \<noteq> []"
  by (auto simp: parallel_def)

lemma parallel_append: "p \<parallel> q \<Longrightarrow> (p @ r) \<parallel> (q @ s)"
  by (auto simp: parallel_def prefix_def append_eq_append_conv2)

lemma parallel_sym: "p \<parallel> q \<Longrightarrow> q \<parallel> p"
  by (auto simp: parallel_def)

lemma merging_target:
  assumes "merging lroot L troot T r g w" "wf_name n"
  shows "names w (troot @ slashed (r @ [n])) (T @ r @ [n])"
  using assms comps_slashed [of "r @ [n]" troot]
  by (auto simp: names_def merging_def wf_name_plain_all wf_name_def butlast_append)

lemma merging_source:
  assumes "merging lroot L troot T r g w" "wf_name n"
  shows "names w (lroot @ slashed (r @ [n])) (L @ r @ [n])"
  using assms comps_slashed [of "r @ [n]" lroot]
  by (auto simp: names_def merging_def wf_name_plain_all wf_name_def butlast_append)

lemma merging_rel:
  assumes "merging lroot L troot T r g w" "wf_name n"
  obtains rel where "rel_from_layer g (lroot @ slashed (r @ [n])) = Some rel" "rel \<noteq> []"
    "g_merge_target_root g @ SLASH # rel = troot @ slashed (r @ [n])"
proof -
  obtain k q where kq: "r @ [n] = k # q" by (cases "r @ [n]") auto
  have wf: "list_all wf_name (k # q)" using assms kq [symmetric] by (simp add: merging_def)
  have "rel_from_layer g (lroot @ slashed (r @ [n])) = Some (k @ slashed q)"
    unfolding kq using assms(1) wf by (intro rel_from_layer_below) (auto simp: merging_def)
  moreover have "k @ slashed q \<noteq> []" using wf by (auto simp: wf_name_def)
  moreover have "g_merge_target_root g @ SLASH # (k @ slashed q) = troot @ slashed (r @ [n])"
    unfolding kq using assms(1) by (simp add: merging_def)
  ultimately show thesis by (rule that)
qed

text \<open>Writing below the target directory keeps the situation.\<close>

lemma merging_put:
  assumes "merging lroot L troot T r g w" "wf_node d" "is_dir d"
  shows "merging lroot L troot T r g (w\<lparr>fs := put (T @ r) (Some d) (fs w)\<rparr>)"
proof -
  have T: "T @ r \<noteq> []" and par: "(T @ r) \<parallel> (L @ r)" and wf: "list_all wf_name (T @ r)"
    using assms(1) parallel_nonempty [of L T]
    by (auto simp: merging_def intro: parallel_append parallel_sym)
  have "dir_at (fs w) (T @ r)" using assms(1) by (simp add: merging_def)
  then have "dir_at (fs w) (butlast (T @ r))"
    by (metis T append_butlast_last_id dir_at_prefix)
  then have "lookup (put (T @ r) (Some d) (fs w)) (T @ r) = Some d" using T by (rule lookup_put_self)
  moreover have "wf_node (put (T @ r) (Some d) (fs w))"
    using assms wf by (intro wf_node_put) (auto simp: merging_def)
  ultimately show ?thesis
    using assms par by (auto simp: merging_def dir_at_def lookup_put_parallel)
qed

lemma lookup_source_put:
  assumes "merging lroot L troot T r g w"
  shows "lookup (put (T @ q) v (fs w)) (L @ p) = lookup (fs w) (L @ p)"
  using assms by (intro lookup_put_parallel) (auto simp: merging_def intro: parallel_append parallel_sym)


section \<open>The single visits\<close>

lemma write_loop_appends:
  assumes "quiet w" "fd \<noteq> []" "dir_at (fs w) (butlast fd)" "lookup (fs w) fd = Some (Reg m a)"
  shows "write_loop dst fd buf w = (AGENTBOX_OK, w\<lparr>fs := put fd (Some (Reg m (a @ buf))) (fs w)\<rparr>)"
  using assms
proof (induction dst fd buf w arbitrary: a rule: write_loop.induct)
  case (1 dst fd buf w)
  show ?case
  proof (cases "buf = []")
    case True
    then show ?thesis using 1 by (subst write_loop.simps) (simp add: put_lookup_same)
  next
    case False
    let ?n = "accepted w (length buf)"
    let ?w1 = "w\<lparr>fs := put fd (Some (Reg m (a @ take ?n buf))) (fs w)\<rparr>"
    have app: "fd_append fd (take ?n buf) w = ?w1" using 1 by (simp add: fd_append_def)
    have "write_loop dst fd (drop ?n buf) ?w1
        = (AGENTBOX_OK, ?w1\<lparr>fs := put fd (Some (Reg m ((a @ take ?n buf) @ drop ?n buf))) (fs ?w1)\<rparr>)"
      using "1.IH" [OF False _ refl, of "a @ take ?n buf"] 1 app
      by (simp add: dir_at_put_butlast lookup_put_self)
    then show ?thesis
      using 1 False app by (subst write_loop.simps) (simp add: Let_def put_put_same)
  qed
qed

lemma copy_loop_appends:
  assumes "quiet w" "fd \<noteq> []" "dir_at (fs w) (butlast fd)" "lookup (fs w) fd = Some (Reg m a)"
  shows "copy_loop src dst fd rest w = (AGENTBOX_OK, w\<lparr>fs := put fd (Some (Reg m (a @ rest))) (fs w)\<rparr>)"
  using assms
proof (induction src dst fd rest w arbitrary: a rule: copy_loop.induct)
  case (1 src dst fd rest w)
  show ?case
  proof (cases "rest = []")
    case True
    then show ?thesis using 1 by (subst copy_loop.simps) (simp add: put_lookup_same)
  next
    case False
    let ?w1 = "w\<lparr>fs := put fd (Some (Reg m (a @ take 65536 rest))) (fs w)\<rparr>"
    have wl: "write_loop dst fd (take 65536 rest) w = (AGENTBOX_OK, ?w1)"
      using 1 by (intro write_loop_appends)
    have "copy_loop src dst fd (drop 65536 rest) ?w1
        = (AGENTBOX_OK, ?w1\<lparr>fs := put fd (Some (Reg m ((a @ take 65536 rest) @ drop 65536 rest))) (fs ?w1)\<rparr>)"
      using 1 False wl by (intro "1.IH" [of _ AGENTBOX_OK ?w1]) (auto simp: dir_at_put_butlast lookup_put_self)
    then show ?thesis
      using 1 False wl by (subst copy_loop.simps) (simp add: put_put_same)
  qed
qed

text \<open>A file or a missing entry is replaced by a copy of the source, whatever sizes the kernel writes.\<close>

lemma copy_regular_file_copies:
  assumes "quiet w" "names w src p" "names w dst q" "lookup (fs w) p = Some (Reg m' c)"
    and "case lookup (fs w) q of None \<Rightarrow> True | Some k \<Rightarrow> \<not> is_dir k"
  shows "copy_regular_file src dst m w = (AGENTBOX_OK,
     w\<lparr>fs := put q (Some (Reg (m AND 4095 AND NOT (umask w)) c)) (put q None (fs w))\<rparr>)"
proof -
  let ?w1 = "w\<lparr>fs := put q None (fs w)\<rparr>"
  have rd: "sys_open_read src w = Inr c"
    using assms by (simp add: sys_open_read_def resolve_names_follow)
  have ul: "snd (sys_unlink dst w) = ?w1"
    using assms by (auto simp: sys_unlink_names put_none_absent split: option.splits)
  have nm: "names ?w1 dst q" using assms(3) by (rule names_put_self)
  have none: "lookup (fs ?w1) q = None" using assms(3) by simp
  let ?w2 = "?w1\<lparr>fs := put q (Some (Reg (m AND 4095 AND NOT (umask w)) [])) (fs ?w1)\<rparr>"
  have "sys_open_write dst m ?w1 = (Inr q, ?w2)"
    using assms(1) nm none by (simp add: sys_open_write_def resolve_names_follow)
  moreover have "copy_loop src dst q c ?w2
      = (AGENTBOX_OK, ?w2\<lparr>fs := put q (Some (Reg (m AND 4095 AND NOT (umask w)) ([] @ c))) (fs ?w2)\<rparr>)"
    using assms(1) names_put_self [OF nm, of "Some (Reg (m AND 4095 AND NOT (umask w)) [])"] nm
    by (intro copy_loop_appends) (auto simp: names_def lookup_put_self)
  ultimately show ?thesis
    using rd ul names_nonempty [OF assms(3)] by (simp add: copy_regular_file_def put_put_same)
qed


text \<open>Making a directory that is there changes nothing.\<close>

lemma sys_mkdir_existing:
  assumes "quiet w" "s \<noteq> []" "plain (comps s)" "dir_at (fs w) (comps s)"
  shows "sys_mkdir s m w = (Some EEXIST, w)"
proof (cases "comps s = []")
  case True
  then show ?thesis using assms by (simp add: sys_mkdir_def entry_call_def resolve_def)
next
  case False
  then have "dir_at (fs w) (butlast (comps s))"
    using assms(4) by (metis append_butlast_last_id dir_at_prefix)
  then have "names w s (comps s)" using assms False by (simp add: names_def)
  with assms show ?thesis
    by (auto simp: sys_mkdir_def quiet_entry_call elim: dir_atE)
qed

lemma sys_mkdir_names:
  "quiet w \<Longrightarrow> names w s p \<Longrightarrow> snd (sys_mkdir s m w) = (case lookup (fs w) p of
     None \<Rightarrow> w\<lparr>fs := put p (Some (Dir (m AND 1023 AND NOT (umask w)) [] [])) (fs w)\<rparr>
   | Some n \<Rightarrow> w)"
  by (simp add: sys_mkdir_def quiet_entry_call split: option.splits)

lemma take_before_slash:
  assumes "i < length (u @ SLASH # n)" "(u @ SLASH # n) ! i = SLASH" "SLASH \<notin> set n"
  shows "\<exists>q. comps u = comps (take i (u @ SLASH # n)) @ q"
proof -
  have "i \<le> length u"
  proof (rule ccontr)
    assume "\<not> i \<le> length u"
    then obtain j where j: "i = length u + Suc j" by (metis add_Suc_right less_imp_Suc_add not_le)
    then have "n ! j = SLASH" "j < length n" using assms by (auto simp: nth_append)
    then show False using assms(3) nth_mem by metis
  qed
  show ?thesis
  proof (cases "i = length u")
    case False
    with \<open>i \<le> length u\<close> have i: "i < length u" by simp
    then have "u ! i = SLASH" using assms(2) by (simp add: nth_append)
    then have "u = take i u @ SLASH # drop (Suc i) u" using i by (metis id_take_nth_drop)
    then have "comps u = comps (take i u) @ comps (drop (Suc i) u)" by (metis comps_join)
    then show ?thesis using i by auto
  qed simp
qed

text \<open>So \<^verbatim>\<open>mkdir_p\<close> of a path whose parent exists is \<^verbatim>\<open>mkdir\<close> of its last component.\<close>

lemma mkdir_p_names:
  assumes "quiet w" "names w (u @ SLASH # n) p" "wf_name n" "length (u @ SLASH # n) < PATH_MAX"
  shows "mkdir_p (u @ SLASH # n) m w = (case lookup (fs w) p of
     None \<Rightarrow> w\<lparr>fs := put p (Some (Dir (m AND 1023 AND NOT (umask w)) [] [])) (fs w)\<rparr>
   | Some k \<Rightarrow> w)"
proof -
  let ?s = "u @ SLASH # n"
  have p: "p = comps u @ [n]" and plain: "plain p" and par: "dir_at (fs w) (comps u)"
    using assms(2,3) by (auto simp: names_def comps_join comps_name)
  have step: "snd (sys_mkdir (take i ?s) 493 w) = w"
    if "i \<in> set (filter (\<lambda>i. ?s ! i = SLASH) [1..<length ?s])" for i
  proof -
    from that have i: "1 \<le> i" "i < length ?s" "?s ! i = SLASH" by auto
    obtain q where q: "comps u = comps (take i ?s) @ q"
      using take_before_slash [OF i(2,3)] assms(3) by (auto simp: wf_name_def)
    have "dir_at (fs w) (comps (take i ?s))" using par q by (metis dir_at_prefix)
    moreover have "plain (comps (take i ?s))" using plain p q by simp
    moreover have "take i ?s \<noteq> []" using i by (cases u) auto
    ultimately show ?thesis using assms(1) by (simp add: sys_mkdir_existing)
  qed
  show ?thesis
    using assms(1) sys_mkdir_names [OF assms(1,2)]
    unfolding mkdir_p_def Let_def snprintf_fits [OF assms(4)]
    by (subst fold_unchanged) (auto simp only: step)
qed

lemma dir_is_opaque_names:
  assumes "quiet w" "names w s p" "lookup (fs w) p = Some (Dir m x es)"
  shows "dir_is_opaque s w = opaque_xattr x"
  using assms
  by (auto simp: dir_is_opaque_def sys_getxattr_def resolve_names_follow opaque_xattr_def opaque_attr_def
      split: option.splits)

text \<open>
  One visit, by kind of the layer's entry. The target string is the target directory followed by
  the relative path of the entry.
\<close>

definition below :: "path \<Rightarrow> node \<Rightarrow> world \<Rightarrow> world" where
  "below p d w = w\<lparr>fs := put p (Some d) (fs w)\<rparr>"

lemma below_simps [simp]:
  "umask (below p d w) = umask w" "refuse (below p d w) = refuse w" "quiet (below p d w) = quiet w"
  "fs (below p d w) = put p (Some d) (fs w)"
  by (simp_all add: below_def)

lemma below_below: "p \<noteq> [] \<Longrightarrow> below p d (below p d' w) = below p d w"
  by (simp add: below_def put_put_same)

lemma below_nested:
  "lookup (fs w) p = Some d \<Longrightarrow> p \<noteq> [] \<Longrightarrow> q \<noteq> [] \<Longrightarrow>
     w\<lparr>fs := put (p @ q) v (fs w)\<rparr> = below p (put q v d) w"
  by (simp add: below_def put_below)

lemma below_same: "lookup (fs w) p = Some d \<Longrightarrow> below p d w = w"
  by (simp add: below_def put_lookup_same)


lemma merging_facts:
  assumes "merging lroot L troot T r g w"
  shows "quiet w" "wf_node (fs w)" "T @ r \<noteq> []"
  using assms parallel_nonempty [of L T] by (auto simp: merging_def)

lemma lookup_child: "lookup t p = Some d \<Longrightarrow> lookup t (p @ [n]) = lookup d [n]"
  by (simp add: lookup_append)

lemma put_below_twice:
  assumes "lookup t p = Some d" "p \<noteq> []" "q \<noteq> []"
  shows "put (p @ q) v2 (put (p @ q) v1 t) = put p (Some (put q v2 (put q v1 d))) t"
  using put_below [OF assms, of v1] put_below [OF lookup_put_exists [OF assms(1,2)] assms(2,3)]
  by (simp add: put_put_same assms(2))

text \<open>The walk stands before the entry \<open>n\<close> of the directory \<open>r\<close>, which is \<open>d\<close> in the target.\<close>

definition at_entry ::
  "string \<Rightarrow> path \<Rightarrow> string \<Rightarrow> path \<Rightarrow> path \<Rightarrow> cow_globals \<Rightarrow> world \<Rightarrow> string \<Rightarrow> node \<Rightarrow> bool" where
  "at_entry lroot L troot T r g w n d \<longleftrightarrow>
     merging lroot L troot T r g w \<and> wf_name n \<and> length (troot @ slashed (r @ [n])) < PATH_MAX
     \<and> lookup (fs w) (T @ r) = Some d"

lemma at_entryD:
  assumes "at_entry lroot L troot T r g w n d"
  shows at_mrg: "merging lroot L troot T r g w" and at_wfn: "wf_name n"
    and at_fit: "length (troot @ slashed (r @ [n])) < PATH_MAX"
    and at_tgt: "lookup (fs w) (T @ r) = Some d"
  using assms by (simp_all add: at_entry_def)


lemma visit_target:
  assumes at: "at_entry lroot L troot T r g w n d"
  shows
  "merge_visit (lroot @ slashed (r @ [n])) sb FTW_F (g, w) = (let target = troot @ slashed (r @ [n]) in
     if is_whiteout sb
     then (let (rc, w1) = agentbox_cow_purge target w in
           if rc \<noteq> AGENTBOX_OK then (-1, (g\<lparr>g_merge_error := rc\<rparr>, w1)) else (0, (g, w1)))
     else if st_type sb = S_IFDIR
     then (let (rc, w1) = (if dir_is_opaque (lroot @ slashed (r @ [n])) w then agentbox_cow_purge target w
                           else (AGENTBOX_OK, w)) in
           if rc \<noteq> AGENTBOX_OK then (-1, (g\<lparr>g_merge_error := rc\<rparr>, w1))
           else (0, (g, mkdir_p target (st_perm sb AND 4095) w1)))
     else if st_type sb = S_IFLNK
     then (case sys_readlink (lroot @ slashed (r @ [n])) (PATH_MAX - 1) w of
             Inl e \<Rightarrow> (-1, (g\<lparr>g_merge_error := AGENTBOX_ERR_IO\<rparr>, w))
           | Inr link_target \<Rightarrow>
               (let w1 = snd (sys_unlink target w) in
                (case sys_symlink (c_str link_target) target w1 of
                   (Some e, w2) \<Rightarrow> (-1, (g\<lparr>g_merge_error := AGENTBOX_ERR_IO\<rparr>, w2))
                 | (None, w2) \<Rightarrow> (0, (g, w2)))))
     else if st_type sb = S_IFREG
     then (let (rc, w1) = copy_regular_file (lroot @ slashed (r @ [n])) target (st_perm sb AND 4095) w in
           if rc \<noteq> AGENTBOX_OK then (-1, (g\<lparr>g_merge_error := rc\<rparr>, w1)) else (0, (g, w1)))
     else (0, (g, w)))"
proof -
  obtain rel where "rel_from_layer g (lroot @ slashed (r @ [n])) = Some rel" "rel \<noteq> []"
      "g_merge_target_root g @ SLASH # rel = troot @ slashed (r @ [n])"
    by (rule merging_rel [OF at_mrg [OF at] at_wfn [OF at]])
  then show ?thesis
    unfolding merge_visit_def prod.case
    by (simp only: option.case if_False ftwflag.distinct snprintf_fits [OF at_fit [OF at]] Let_def simp_thms)
qed

lemma visit_flag:
  "merge_visit s sb FTW_SL (g, w) = merge_visit s sb FTW_F (g, w)"
  "merge_visit s sb FTW_D (g, w) = merge_visit s sb FTW_F (g, w)"
  by (simp_all add: merge_visit_def)

lemma target_names:
  assumes at: "at_entry lroot L troot T r g w n d"
  shows "names w (troot @ slashed (r @ [n])) (T @ r @ [n])"
  using at_mrg [OF at] at_wfn [OF at] by (rule merging_target)

lemma target_entry:
  assumes at: "at_entry lroot L troot T r g w n d"
  shows "lookup (fs w) (T @ r @ [n]) = lookup d [n]"
  using lookup_child [OF at_tgt [OF at], of n] by simp

lemma target_put:
  assumes at: "at_entry lroot L troot T r g w n d"
  shows "w\<lparr>fs := put (T @ r @ [n]) v (fs w)\<rparr> = below (T @ r) (put [n] v d) w"
  using below_nested [OF at_tgt [OF at] merging_facts(3) [OF at_mrg [OF at]], of "[n]" v] by simp

lemma target_dir:
  assumes at: "at_entry lroot L troot T r g w n d"
  shows "is_dir d"
  using at_mrg [OF at] at_tgt [OF at] by (simp add: merging_def dir_at_def)

lemma target_wf:
  assumes at: "at_entry lroot L troot T r g w n d"
  shows "wf_node d"
  using wf_node_lookup [OF merging_facts(2) [OF at_mrg [OF at]] at_tgt [OF at]] .

lemma visit_whiteout:
  assumes at: "at_entry lroot L troot T r g w n d"
  shows
  "is_whiteout sb \<Longrightarrow> merge_visit (lroot @ slashed (r @ [n])) sb FTW_F (g, w)
     = (0, (g, below (T @ r) (put [n] None d) w))"
  using cow_purge_removes [OF merging_facts(1) [OF at_mrg [OF at]] target_names [OF at] merging_facts(2) [OF at_mrg [OF at]]]
  by (simp add: visit_target [OF at] target_put [OF at] del: slashed_simps)

lemma visit_skipped:
  assumes at: "at_entry lroot L troot T r g w n d"
  shows
  "\<not> is_whiteout sb \<Longrightarrow> st_type sb \<in> {S_IFCHR, S_IFOTHER} \<Longrightarrow>
     merge_visit (lroot @ slashed (r @ [n])) sb FTW_F (g, w) = (0, (g, w))"
  by (auto simp: visit_target [OF at] simp del: slashed_simps)

lemma visit_file:
  assumes at: "at_entry lroot L troot T r g w n d"
    and "lookup (fs w) (L @ r @ [n]) = Some (Reg m c)"
    and "case lookup d [n] of None \<Rightarrow> True | Some k \<Rightarrow> \<not> is_dir k"
  shows "merge_visit (lroot @ slashed (r @ [n])) (stat_of (Reg m c)) FTW_F (g, w)
     = (0, (g, below (T @ r) (graft (umask w) (Reg m c) n d) w))"
proof -
  have "copy_regular_file (lroot @ slashed (r @ [n])) (troot @ slashed (r @ [n])) (m AND 4095) w
      = (AGENTBOX_OK, w\<lparr>fs := put (T @ r @ [n]) (Some (Reg (m AND 4095 AND NOT (umask w)) c))
          (put (T @ r @ [n]) None (fs w))\<rparr>)"
    using copy_regular_file_copies [OF merging_facts(1) [OF at_mrg [OF at]] merging_source [OF at_mrg [OF at] at_wfn [OF at]]
      target_names [OF at] assms(2), of "m AND 4095"] assms(3)
    by (simp add: target_entry [OF at] and.assoc del: slashed_simps)
  also have "w\<lparr>fs := put (T @ r @ [n]) (Some (Reg (m AND 4095 AND NOT (umask w)) c))
          (put (T @ r @ [n]) None (fs w))\<rparr> = below (T @ r) (graft (umask w) (Reg m c) n d) w"
    using put_below_twice [OF at_tgt [OF at] merging_facts(3) [OF at_mrg [OF at]], of "[n]"] by (simp add: below_def)
  finally show ?thesis by (simp add: visit_target [OF at] is_whiteout_def del: slashed_simps)
qed

lemma visit_link:
  assumes at: "at_entry lroot L troot T r g w n d"
    and "lookup (fs w) (L @ r @ [n]) = Some (Lnk l)" "no_nul l" "length l < PATH_MAX"
    and "case lookup d [n] of None \<Rightarrow> True | Some k \<Rightarrow> \<not> is_dir k"
  shows "merge_visit (lroot @ slashed (r @ [n])) (stat_of (Lnk l)) FTW_F (g, w)
     = (0, (g, below (T @ r) (graft (umask w) (Lnk l) n d) w))"
proof -
  let ?p = "T @ r @ [n]" and ?s = "troot @ slashed (r @ [n])"
  let ?w1 = "w\<lparr>fs := put ?p None (fs w)\<rparr>"
  have q: "quiet w" using merging_facts(1) [OF at_mrg [OF at]] .
  have rd: "sys_readlink (lroot @ slashed (r @ [n])) (PATH_MAX - 1) w = Inr l"
    using assms(2,4) q by (simp add: sys_readlink_def resolve_names [OF merging_source [OF at_mrg [OF at] at_wfn [OF at]]] del: slashed_simps)
  have ul: "snd (sys_unlink ?s w) = ?w1"
    using assms(5) target_entry [OF at]
    by (auto simp: sys_unlink_names [OF q target_names [OF at]] put_none_absent simp del: slashed_simps split: option.splits)
  have "names ?w1 ?s ?p" using target_names [OF at] by (rule names_put_self)
  then have "sys_symlink l ?s ?w1 = (None, ?w1\<lparr>fs := put ?p (Some (Lnk l)) (fs ?w1)\<rparr>)"
    using q target_names [OF at] by (simp add: sys_symlink_def quiet_entry_call del: slashed_simps)
  moreover have "?w1\<lparr>fs := put ?p (Some (Lnk l)) (fs ?w1)\<rparr> = below (T @ r) (graft (umask w) (Lnk l) n d) w"
    using put_below_twice [OF at_tgt [OF at] merging_facts(3) [OF at_mrg [OF at]], of "[n]"] by (simp add: below_def)
  ultimately show ?thesis
    using assms(3) rd ul by (simp add: visit_target [OF at] is_whiteout_def del: slashed_simps)
qed

lemma visit_dir:
  assumes at: "at_entry lroot L troot T r g w n d"
    and "lookup (fs w) (L @ r @ [n]) = Some (Dir m x es)"
  shows "merge_visit (lroot @ slashed (r @ [n])) (stat_of (Dir m x es)) FTW_F (g, w)
     = (0, (g, below (T @ r) (let d1 = (if opaque_xattr x then put [n] None d else d) in
         (case lookup d1 [n] of None \<Rightarrow> put [n] (Some (Dir (m AND 1023 AND NOT (umask w)) [] [])) d1
          | Some k \<Rightarrow> d1)) w))"
proof -
  let ?p = "T @ r @ [n]" and ?s = "troot @ slashed (r @ [n])"
  define d1 where "d1 = (if opaque_xattr x then put [n] None d else d)"
  let ?w1 = "below (T @ r) d1 w"
  have q: "quiet w" using merging_facts(1) [OF at_mrg [OF at]] .
  have op: "dir_is_opaque (lroot @ slashed (r @ [n])) w = opaque_xattr x"
    using dir_is_opaque_names [OF q merging_source [OF at_mrg [OF at] at_wfn [OF at]] assms(2)] .
  have pu: "(if opaque_xattr x then agentbox_cow_purge ?s w else (AGENTBOX_OK, w)) = (AGENTBOX_OK, ?w1)"
    using cow_purge_removes [OF q target_names [OF at] merging_facts(2) [OF at_mrg [OF at]]]
    by (simp add: d1_def target_put [OF at] below_same [OF at_tgt [OF at]] del: slashed_simps)
  have tgt1: "lookup (fs ?w1) (T @ r) = Some d1"
    using lookup_put_exists [OF at_tgt [OF at] merging_facts(3) [OF at_mrg [OF at]]] by (simp del: slashed_simps)
  have nm1: "names ?w1 ?s ?p"
    using names_put_self [OF target_names [OF at], of None] target_names [OF at]
    by (simp add: d1_def target_put [OF at] below_same [OF at_tgt [OF at]] del: slashed_simps)
  have len: "length ((troot @ slashed r) @ SLASH # n) < PATH_MAX" using at_fit [OF at] by simp
  have s: "(troot @ slashed r) @ SLASH # n = ?s" by simp
  have child: "lookup (fs ?w1) ?p = lookup d1 [n]" using lookup_child [OF tgt1, of n] by simp
  have bits: "(m AND 4095) AND 1023 AND NOT (umask ?w1) = m AND 1023 AND NOT (umask w)"
    by (simp flip: and.assoc) (simp add: and.assoc)
  have "mkdir_p ?s (m AND 4095) ?w1 = (case lookup d1 [n] of
      None \<Rightarrow> ?w1\<lparr>fs := put ?p (Some (Dir (m AND 1023 AND NOT (umask w)) [] [])) (fs ?w1)\<rparr>
    | Some k \<Rightarrow> ?w1)"
    using mkdir_p_names [OF _ nm1 [folded s] at_wfn [OF at] len, of "m AND 4095"] q
    unfolding child s bits by simp
  also have "\<dots> = below (T @ r) (case lookup d1 [n] of
      None \<Rightarrow> put [n] (Some (Dir (m AND 1023 AND NOT (umask w)) [] [])) d1 | Some k \<Rightarrow> d1) w"
    using below_nested [OF tgt1 merging_facts(3) [OF at_mrg [OF at]], of "[n]"]
    by (auto simp: below_below [OF merging_facts(3) [OF at_mrg [OF at]]]
        simp del: lookup.simps below_simps split: option.split)
  finally have "mkdir_p ?s (m AND 4095) ?w1 = \<dots>" .
  then show ?thesis
    using op pu by (simp add: visit_target [OF at] is_whiteout_def d1_def [symmetric] Let_def
        del: slashed_simps lookup.simps split del: if_split)
qed


section \<open>The walk over a whole layer\<close>

lemma wf_put_entry [simp]:
  "wf_node d \<Longrightarrow> wf_name n \<Longrightarrow> wf_node (put [n] None d)"
  "wf_node d \<Longrightarrow> wf_name n \<Longrightarrow> wf_node c \<Longrightarrow> wf_node (put [n] (Some c) d)"
  using wf_node_put [of d None "[n]"] wf_node_put [of d "Some c" "[n]"] by simp_all

text \<open>Grafting well-formed entries onto a well-formed directory gives a well-formed directory.\<close>

lemma wf_grafts:
  shows wf_graft: "wf_node c \<Longrightarrow> wf_name n \<Longrightarrow> wf_node d \<Longrightarrow> wf_node (graft um c n d)"
    and wf_graft_all: "wf_entries es \<Longrightarrow> wf_node d \<Longrightarrow> wf_node (graft_all um es d)"
proof (induction um c n d and um es d rule: graft_graft_all.induct)
  case (5 um m x es n d)
  have d1: "wf_node (if opaque_xattr x then put [n] None d else d)"
    using 5(3,4) by simp
  have "wf_node (case lookup (if opaque_xattr x then put [n] None d else d) [n] of
      None \<Rightarrow> Dir (m AND 1023 AND NOT um) [] [] | Some k \<Rightarrow> k)"
    using wf_node_lookup [OF d1, of "[n]"] by (simp split: option.split del: lookup.simps)
  then have "wf_node (graft_all um es (case lookup (if opaque_xattr x then put [n] None d else d) [n] of
      None \<Rightarrow> Dir (m AND 1023 AND NOT um) [] [] | Some k \<Rightarrow> k))"
    using 5(1) [OF refl refl] 5(2) by simp
  then show ?case
    using d1 5(3) by (auto simp: Let_def simp del: lookup.simps)
qed auto

lemma compat_all_absent: "compat_all es None = compat_all es (Some (Dir m x []))"
  by (induction es) auto

lemma put_put_singleton: "put [n] v (put [n] (Some k) d) = put [n] v d"
  by (rule put_put_same) simp

lemma merge_visit_dir_first:
  assumes at: "at_entry lroot L troot T r g w n d"
    and src: "lookup (fs w) (L @ r @ [n]) = Some (Dir m x es)"
    and cmp: "compat (Dir m x es) (lookup d [n])"
  obtains sub w1 where "merge_visit (lroot @ slashed (r @ [n])) (stat_of (Dir m x es)) FTW_D (g, w) = (0, (g, w1))"
    "merging lroot L troot T (r @ [n]) g w1" "umask w1 = umask w" "refuse w1 = refuse w"
    "lookup (fs w1) (T @ r @ [n]) = Some sub" "compat_all es (Some sub)"
    "below (T @ r @ [n]) (graft_all (umask w) es sub) w1 = below (T @ r) (graft (umask w) (Dir m x es) n d) w"
    "\<And>p. lookup (fs w1) (L @ p) = lookup (fs w) (L @ p)"
proof -
  let ?um = "umask w"
  define d1 where "d1 = (if opaque_xattr x then put [n] None d else d)"
  define sub where "sub = (case lookup d1 [n] of Some k \<Rightarrow> k | None \<Rightarrow> Dir (m AND 1023 AND NOT ?um) [] [])"
  define d2 where "d2 = (case lookup d1 [n] of None \<Rightarrow> put [n] (Some sub) d1 | Some k \<Rightarrow> d1)"
  let ?w1 = "below (T @ r) d2 w"
  have dd: "is_dir d" "wf_node d" using target_dir [OF at] target_wf [OF at] .
  have l1: "lookup d1 [n] = (if opaque_xattr x then None else lookup d [n])"
    using put_singleton_same [OF dd(1), of n None] by (simp add: d1_def)
  have d1: "is_dir d1" "wf_node d1"
    using dd at_wfn [OF at] by (auto simp: d1_def)
  have sub: "is_dir sub" "wf_node sub" "compat_all es (Some sub)"
    using cmp wf_node_lookup [OF d1(2), of "[n]"] compat_all_absent
    by (auto simp: sub_def l1 Let_def split: option.splits if_splits simp del: lookup.simps)
  have d2: "is_dir d2" "wf_node d2" "lookup d2 [n] = Some sub"
    using d1 sub at_wfn [OF at] put_singleton_same [OF d1(1), of n "Some sub"]
    by (auto simp: d2_def sub_def split: option.splits simp del: lookup.simps)
  have "merge_visit (lroot @ slashed (r @ [n])) (stat_of (Dir m x es)) FTW_D (g, w) = (0, (g, ?w1))"
    unfolding visit_flag(2) visit_dir [OF at src]
    by (auto simp: d2_def d1_def sub_def Let_def simp del: lookup.simps slashed_simps split: option.splits)
  moreover have mrg1: "merging lroot L troot T r g ?w1"
    unfolding below_def by (rule merging_put [OF at_mrg [OF at] d2(2,1)])
  have tg: "lookup (fs ?w1) (T @ r @ [n]) = Some sub"
    using lookup_put_exists [OF at_tgt [OF at] merging_facts(3) [OF at_mrg [OF at]], of "Some d2"] d2(3)
      lookup_child [of "fs ?w1" "T @ r" d2 n] by simp
  moreover have "dir_at (fs ?w1) (L @ r @ [n])"
    using lookup_source_put [OF at_mrg [OF at], of r "Some d2" "r @ [n]"] src by (simp add: dir_at_def)
  then have "merging lroot L troot T (r @ [n]) g ?w1"
    using mrg1 tg sub(1) at_wfn [OF at] by (auto simp: merging_def dir_at_def)
  moreover have "below (T @ r @ [n]) (graft_all ?um es sub) ?w1 = below (T @ r) (graft ?um (Dir m x es) n d) w"
  proof -
    have "put [n] (Some (graft_all ?um es sub)) d2 = put [n] (Some (graft_all ?um es sub)) d1"
      by (simp add: d2_def put_put_singleton split: option.split del: lookup.simps)
    also have "\<dots> = graft ?um (Dir m x es) n d"
      by (simp add: d1_def [symmetric] sub_def [symmetric] Let_def del: lookup.simps)
    finally have g: "put [n] (Some (graft_all ?um es sub)) d2 = graft ?um (Dir m x es) n d" .
    have ne: "T @ r \<noteq> []" using merging_facts(3) [OF at_mrg [OF at]] .
    have "put ((T @ r) @ [n]) (Some (graft_all ?um es sub)) (put (T @ r) (Some d2) (fs w))
        = put (T @ r) (Some (graft ?um (Dir m x es) n d)) (fs w)"
      using put_below [OF lookup_put_exists [OF at_tgt [OF at] ne, of "Some d2"] ne, of "[n]" "Some (graft_all ?um es sub)"]
      by (simp add: g put_put_same [OF ne] del: graft.simps)
    then show ?thesis by (simp add: below_def del: graft.simps)
  qed
  moreover have "lookup (fs ?w1) (L @ p) = lookup (fs w) (L @ p)" for p
    using lookup_source_put [OF at_mrg [OF at]] by simp
  ultimately show thesis using that [of ?w1 sub] sub(3) by simp
qed


text \<open>
  The walk computes the graft: by induction over the layer's tree, one entry at a time, each with
  everything below it.
\<close>

lemma merge_walk:
  shows merge_node: "at_entry lroot L troot T r g w n d \<Longrightarrow> wf_node c \<Longrightarrow>
      fits (length (troot @ slashed (r @ [n]))) c \<Longrightarrow>
      lookup (fs w) (L @ r @ [n]) = Some c \<Longrightarrow> compat c (lookup d [n]) \<Longrightarrow>
      until_nonzero (ftw_call merge_visit) (ftw_node (refuse w) False (lroot @ slashed (r @ [n])) c) (g, w)
        = (0, (g, below (T @ r) (graft (umask w) c n d) w))"
    and merge_entries: "merging lroot L troot T r g w \<Longrightarrow> wf_entries es \<Longrightarrow>
      fits_all (length (troot @ slashed r)) es \<Longrightarrow> lookup (fs w) (T @ r) = Some d \<Longrightarrow>
      \<forall>(n, c) \<in> set es. lookup (fs w) (L @ r @ [n]) = Some c \<Longrightarrow> compat_all es (Some d) \<Longrightarrow>
      until_nonzero (ftw_call merge_visit) (ftw_entries (refuse w) False (lroot @ slashed r) es) (g, w)
        = (0, (g, below (T @ r) (graft_all (umask w) es d) w))"
proof (induction c and es arbitrary: w r n d and w r d rule: wf_node_wf_entries.induct)
  case (1 m x es)
  note at = "1.prems"(1)
  obtain sub w1 where v: "merge_visit (lroot @ slashed (r @ [n])) (stat_of (Dir m x es)) FTW_D (g, w) = (0, (g, w1))"
    "merging lroot L troot T (r @ [n]) g w1" "umask w1 = umask w" "refuse w1 = refuse w"
    "lookup (fs w1) (T @ r @ [n]) = Some sub" "compat_all es (Some sub)"
    "below (T @ r @ [n]) (graft_all (umask w) es sub) w1 = below (T @ r) (graft (umask w) (Dir m x es) n d) w"
    "\<And>p. lookup (fs w1) (L @ p) = lookup (fs w) (L @ p)"
    by (rule merge_visit_dir_first [OF at "1.prems"(4,5)]) blast
  have "lookup (fs w1) (L @ (r @ [n]) @ [k]) = Some c" if "(k, c) \<in> set es" for k c
    using v(8) [of "(r @ [n]) @ [k]"] lookup_child [OF "1.prems"(4), of k] that "1.prems"(2)
    by (simp add: wf_entries_distinct)
  then have "until_nonzero (ftw_call merge_visit) (ftw_entries (refuse w1) False (lroot @ slashed (r @ [n])) es) (g, w1)
        = (0, (g, below (T @ r @ [n]) (graft_all (umask w1) es sub) w1))"
    using "1.IH" [OF v(2) _ _ _ _ v(6)] "1.prems" v(5) by (auto simp del: slashed_simps)
  then show ?case
    using v(1,3,4,7) merging_facts(1) [OF at_mrg [OF at]] by (simp del: slashed_simps graft.simps)
next
  case (7 n c es)
  let ?d1 = "graft (umask w) c n d" and ?s = "lroot @ slashed r"
  let ?w1 = "below (T @ r) ?d1 w"
  note mrg = "7.prems"(1) and tgt = "7.prems"(4)
  have at: "at_entry lroot L troot T r g w n d"
    using "7.prems" by (simp add: at_entry_def)
  have s: "?s @ SLASH # n = lroot @ slashed (r @ [n])" by simp
  have q: "quiet w" using merging_facts(1) [OF mrg] .
  have first: "until_nonzero (ftw_call merge_visit) (ftw_node (refuse w) False (?s @ SLASH # n) c) (g, w) = (0, (g, ?w1))"
    unfolding s using "7.IH"(1) [OF at] "7.prems" by (simp add: add.assoc)
  have d: "is_dir d" "wf_node d" using target_dir [OF at] target_wf [OF at] .
  have mrg1: "merging lroot L troot T r g ?w1"
    unfolding below_def using mrg "7.prems"(2) d by (intro merging_put) (auto intro: wf_graft)
  have "compat_all es (Some ?d1)"
    using "7.prems"(2,6) compat_all_cong [of es ?d1 d] by (auto simp: graft_other simp del: lookup.simps) (metis graft_other)
  moreover have "lookup (fs ?w1) (L @ r @ [k]) = Some e" if "(k, e) \<in> set es" for k e
    using "7.prems"(5) that lookup_source_put [OF mrg, of r "Some ?d1" "r @ [k]"] by auto
  ultimately have "until_nonzero (ftw_call merge_visit) (ftw_entries (refuse ?w1) False ?s es) (g, ?w1)
      = (0, (g, below (T @ r) (graft_all (umask ?w1) es ?d1) ?w1))"
    using "7.prems"(2,3) lookup_put_exists [OF tgt merging_facts(3) [OF mrg]]
    by (intro "7.IH"(2) [OF mrg1]) auto
  then show ?case
    using first q by (simp add: until_nonzero_append_ok Let_def below_below [OF merging_facts(3) [OF mrg]])
next
  case (2 l)
  then show ?case
    using visit_link [OF "2.prems"(1,4)] by (simp add: visit_flag del: slashed_simps)
next
  case (3 m c)
  then show ?case
    using visit_file [OF "3.prems"(1,4)] by (simp del: slashed_simps)
next
  case (4 m a b)
  have "below (T @ r) d w = w" using at_tgt [OF "4.prems"(1)] by (rule below_same)
  then show ?case
    using visit_whiteout [OF "4.prems"(1)] visit_skipped [OF "4.prems"(1)]
    by (auto simp: is_whiteout_def simp del: slashed_simps)
next
  case (5 m)
  have "below (T @ r) d w = w" using at_tgt [OF "5.prems"(1)] by (rule below_same)
  then show ?case
    using visit_skipped [OF "5.prems"(1)] by (simp add: is_whiteout_def del: slashed_simps)
qed (simp add: below_same)


section \<open>The whole commit\<close>

text \<open>The tree at the workspace after replaying the layer trees \<open>ls\<close>, oldest first.\<close>

definition replay :: "mode \<Rightarrow> node list \<Rightarrow> node \<Rightarrow> node" where
  "replay um ls d = fold (\<lambda>l. graft_all um (entries l)) ls d"

fun replayable :: "mode \<Rightarrow> node list \<Rightarrow> node \<Rightarrow> bool" where
  "replayable um [] d = True"
| "replayable um (l # ls) d =
     (is_dir l \<and> compat_all (entries l) (Some d) \<and> replayable um ls (graft_all um (entries l) d))"

text \<open>
  The setting of a commit: the string \<open>s\<close> names the workspace \<open>T\<close> with tree \<open>d\<close>; every layer
  string names a directory disjoint from it whose paths still fit below \<open>s\<close>.
\<close>

definition layer_at :: "world \<Rightarrow> path \<Rightarrow> string \<Rightarrow> string \<Rightarrow> node \<Rightarrow> bool" where
  "layer_at w T s lroot l \<longleftrightarrow>
     list_all wf_name (comps lroot) \<and> comps lroot \<parallel> T \<and> lookup (fs w) (comps lroot) = Some l
     \<and> is_dir l \<and> fits_all (length s) (entries l)"

definition commit_setting :: "string \<Rightarrow> path \<Rightarrow> node \<Rightarrow> string list \<Rightarrow> node list \<Rightarrow> world \<Rightarrow> bool" where
  "commit_setting s T d layers ls w \<longleftrightarrow>
     quiet w \<and> wf_node (fs w) \<and> comps s = T \<and> list_all wf_name T \<and> lookup (fs w) T = Some d \<and> is_dir d
     \<and> list_all2 (layer_at w T s) layers ls"

lemma dir_at_butlast: "dir_at t p \<Longrightarrow> p \<noteq> [] \<Longrightarrow> dir_at t (butlast p)"
  by (metis append_butlast_last_id dir_at_prefix)

lemma names_dir:
  "list_all wf_name (comps s) \<Longrightarrow> comps s \<noteq> [] \<Longrightarrow> dir_at (fs w) (comps s) \<Longrightarrow> names w s (comps s)"
  by (simp add: names_def wf_name_plain_all dir_at_butlast)

lemma commit_one_layer:
  assumes "quiet w" "wf_node (fs w)" "comps s = T" "list_all wf_name T" "lookup (fs w) T = Some d"
    and "is_dir d" "layer_at w T s lroot l" "compat_all (entries l) (Some d)"
    and "g_merge_layer_root g = lroot" "g_merge_target_root g = s"
  shows "nftw w False merge_visit lroot (g, w) = (0, (g, below T (graft_all (umask w) (entries l) d) w))"
proof -
  let ?L = "comps lroot"
  from assms(7) obtain m x es where l: "l = Dir m x es" "lookup (fs w) ?L = Some (Dir m x es)"
    by (auto simp: layer_at_def elim: is_dirE)
  have L: "list_all wf_name ?L" "?L \<parallel> T" "fits_all (length s) es"
    using assms(7) l by (auto simp: layer_at_def)
  have mrg: "merging lroot ?L s T [] g w"
    using assms l L by (auto simp: merging_def dir_at_def)
  have "names w lroot ?L"
    using L parallel_nonempty [OF L(2)] l(2) by (auto intro: names_dir)
  then have st: "sys_lstat lroot w = Inr (Dir m x es)"
    using assms(1) l(2) by (simp add: quiet_lstat)
  have root: "merge_visit lroot (stat_of (Dir m x es)) FTW_D (g, w) = (0, (g, w))"
    using assms(9) by (simp add: merge_visit_def rel_from_layer_def strncmp_eq_def)
  have wf: "wf_entries es" using wf_node_lookup [OF assms(2) l(2)] by simp
  then have kids: "\<forall>(n, c) \<in> set es. lookup (fs w) (?L @ [] @ [n]) = Some c"
    using lookup_child [OF l(2)] by (auto simp: wf_entries_distinct)
  have "until_nonzero (ftw_call merge_visit) (ftw_entries (refuse w) False (lroot @ slashed []) es) (g, w)
      = (0, (g, below (T @ []) (graft_all (umask w) es d) w))"
    using assms(5,8) L(3) l(1) wf kids by (intro merge_entries [OF mrg]) auto
  then show ?thesis
    using st root assms(1) l(1) by (simp add: nftw_def)
qed

lemma layer_at_below: "layer_at w T s lroot l \<Longrightarrow> layer_at (below T d w) T s lroot l"
  by (auto simp: layer_at_def lookup_put_parallel parallel_sym)

lemma commit_merge_replays:
  assumes "commit_setting s T d layers ls w" "replayable (umask w) ls d"
  shows "\<exists>g'. agentbox_cow_commit_merge layers s (g, w)
    = (AGENTBOX_OK, (g', if layers = [] then w else below T (replay (umask w) ls d) w))"
proof -
  have "list_all2 (layer_at w T s) layers ls" using assms(1) by (simp add: commit_setting_def)
  then show ?thesis using assms
  proof (induction layers ls arbitrary: d w g rule: list_all2_induct)
    case Nil
    then show ?case by simp
  next
    case (Cons lroot layers l ls)
    let ?d1 = "graft_all (umask w) (entries l) d" and ?w1 = "below T (graft_all (umask w) (entries l) d) w"
    let ?g1 = "g\<lparr>g_merge_layer_root := lroot, g_merge_target_root := s, g_merge_error := AGENTBOX_OK\<rparr>"
    from Cons.prems(1) have set: "quiet w" "wf_node (fs w)" "comps s = T" "list_all wf_name T"
        "lookup (fs w) T = Some d" "is_dir d" "layer_at w T s lroot l"
      by (auto simp: commit_setting_def)
    have cmp: "is_dir l" "compat_all (entries l) (Some d)" "replayable (umask w) ls ?d1"
      using Cons.prems(2) by auto
    have one: "nftw w False merge_visit lroot (?g1, w) = (0, (?g1, ?w1))"
      using set cmp by (intro commit_one_layer) auto
    have T: "T \<noteq> []" using set(7) parallel_nonempty by (auto simp: layer_at_def)
    have "wf_node l" using wf_node_lookup [OF set(2)] set(7) by (auto simp: layer_at_def)
    then have "wf_entries (entries l)" by (cases l) auto
    then have wf1: "wf_node ?d1"
      using wf_node_lookup [OF set(2,5)] by (rule wf_graft_all)
    have "commit_setting s T ?d1 layers ls ?w1"
      using Cons.prems(1) set wf1 lookup_put_exists [OF set(5) T]
      by (auto simp: commit_setting_def intro: wf_node_put list_all2_mono [OF _ layer_at_below])
    from Cons.IH [OF this, of ?g1] cmp(3)
    obtain g' where "agentbox_cow_commit_merge layers s (?g1, ?w1)
        = (AGENTBOX_OK, (g', if layers = [] then ?w1 else below T (replay (umask w) ls ?d1) ?w1))"
      unfolding below_simps by blast
    moreover have "ls = []" if "layers = []" using that Cons.hyps(2) by simp
    ultimately show ?case
      using one T by (auto simp: replay_def below_below)
  qed
qed

end
