(* ===== verification/Overlay.thy ===== *)
theory Overlay
  imports CowMerge
begin

text \<open>
  What the processes in the sandbox see: the lookup rules of OverlayFS (the kernel's
  \<^verbatim>\<open>Documentation/filesystems/overlayfs.rst\<close>), written over a stack of layer trees, newest first.
  They are the specification that the commit of \<^verbatim>\<open>src/c/agentbox_cow.c\<close> is measured against:
  replaying the layers onto the workspace leaves there what the overlay showed
  (\<open>replay_is_overlay\<close>).
\<close>

section \<open>Contents\<close>

text \<open>What stands at a path, without permission bits and attributes.\<close>

datatype content = CReg bytes | CLnk bytes | CDir | CChr nat nat | CSpecial

primrec content_of :: "node \<Rightarrow> content" where
  "content_of (Reg m c) = CReg c"
| "content_of (Lnk l) = CLnk l"
| "content_of (Dir m x es) = CDir"
| "content_of (Chr m a b) = CChr a b"
| "content_of (Special m) = CSpecial"

lemma content_of_dir [simp]: "content_of n = CDir \<longleftrightarrow> is_dir n"
  by (cases n) auto

definition view :: "node \<Rightarrow> path \<Rightarrow> content option" where
  "view t p = map_option content_of (lookup t p)"


section \<open>Lookup in an overlay\<close>

definition whiteout :: "node \<Rightarrow> bool" where
  "whiteout n \<longleftrightarrow> (case n of Chr m a b \<Rightarrow> a = 0 \<and> b = 0 | _ \<Rightarrow> False)"

text \<open>With the \<^verbatim>\<open>userxattr\<close> mount option a directory is opaque when this attribute has the value \<open>y\<close>.\<close>

definition ovl_opaque :: "node \<Rightarrow> bool" where
  "ovl_opaque n \<longleftrightarrow> (case n of Dir m x es \<Rightarrow> map_of x ''user.overlay.opaque'' = Some ''y'' | _ \<Rightarrow> False)"

text \<open>
  The entries that a name stands for in a stack of directories, newest first. A whiteout hides
  everything below it, and so do a file and an opaque directory; a directory merges with the
  directories right below it.
\<close>

fun gather :: "string \<Rightarrow> node list \<Rightarrow> node list" where
  "gather n [] = []"
| "gather n (d # ds) = (case lookup d [n] of
     None \<Rightarrow> gather n ds
   | Some c \<Rightarrow>
       if whiteout c then []
       else if is_dir c \<and> \<not> ovl_opaque c then c # takeWhile is_dir (gather n ds)
       else [c])"

text \<open>What the overlay shows at a path.\<close>

fun overlay_view :: "node list \<Rightarrow> path \<Rightarrow> content option" where
  "overlay_view [] [] = None"
| "overlay_view (d # ds) [] = Some (content_of d)"
| "overlay_view ds (n # p) = overlay_view (gather n (takeWhile is_dir ds)) p"

text \<open>
  The layers as OverlayFS leaves them: no device nodes but whiteouts and no special files, and
  an opaque attribute only with the value \<open>y\<close>.
\<close>

fun ordinary :: "node \<Rightarrow> bool"
  and ordinary_all :: "(string \<times> node) list \<Rightarrow> bool"
where
  "ordinary (Chr m a b) = (a = 0 \<and> b = 0)"
| "ordinary (Special m) = False"
| "ordinary (Reg m c) = True"
| "ordinary (Lnk l) = True"
| "ordinary (Dir m x es) = (opaque_xattr x = ovl_opaque (Dir m x es) \<and> ordinary_all es)"
| "ordinary_all [] = True"
| "ordinary_all ((n, c) # es) = (ordinary c \<and> ordinary_all es)"


section \<open>Replaying a layer refines pushing it onto the stack\<close>

text \<open>
  An optional entry shows what a gathered stack shows; a tree shows a stack of directories if it
  does so at every name.
\<close>

definition shows_at :: "node option \<Rightarrow> node list \<Rightarrow> bool" where
  "shows_at c ds \<longleftrightarrow> (case c of None \<Rightarrow> ds = [] | Some k \<Rightarrow> \<forall>p. view k p = overlay_view ds p)"

definition shows_stack :: "node \<Rightarrow> node list \<Rightarrow> bool" where
  "shows_stack d ds \<longleftrightarrow> is_dir d \<and> list_all is_dir ds \<and> (\<forall>n. shows_at (lookup d [n]) (gather n ds))"

lemma takeWhile_idem [simp]: "takeWhile P (takeWhile P xs) = takeWhile P xs"
  by (auto dest: set_takeWhileD)

lemma overlay_view_dirs: "overlay_view (takeWhile is_dir ds) (n # p) = overlay_view ds (n # p)"
  by simp

lemma overlay_view_none: "overlay_view [] p = None"
  by (induction p) auto

lemma overlay_view_Cons:
  assumes "list_all is_dir ds"
  shows "overlay_view ds (n # p) = overlay_view (gather n ds) p"
proof -
  have "takeWhile is_dir ds = ds" using assms by (simp add: list_all_iff)
  then show ?thesis by (simp only: overlay_view.simps)
qed

lemma view_Cons: "view d (n # p) = (case lookup d [n] of None \<Rightarrow> None | Some c \<Rightarrow> view c p)"
  by (simp add: view_def split: option.split)

lemma view_leaf: "\<not> is_dir c \<Longrightarrow> view c p = (if p = [] then Some (content_of c) else None)"
  by (cases p) (simp_all add: view_def lookup_not_dir del: lookup.simps(2))

lemma overlay_view_leaf: "\<not> is_dir c \<Longrightarrow> overlay_view [c] p = (if p = [] then Some (content_of c) else None)"
  by (cases p) (auto simp: overlay_view_none)

lemma overlay_view_hd: "overlay_view ds [] = map_option content_of (case ds of [] \<Rightarrow> None | d # _ \<Rightarrow> Some d)"
  by (cases ds) auto

lemma shows_stack_view:
  assumes "shows_stack d ds" "ds \<noteq> []"
  shows "view d p = overlay_view ds p"
proof (cases p)
  case Nil
  then show ?thesis using assms by (cases ds) (auto simp: shows_stack_def view_def, metis content_of_dir)
next
  case (Cons n q)
  have at: "shows_at (lookup d [n]) (gather n ds)" using assms(1) by (simp add: shows_stack_def)
  have "list_all is_dir ds" using assms(1) by (simp add: shows_stack_def)
  from overlay_view_Cons [OF this, of n q] at Cons show ?thesis
    by (cases "lookup d [n]") (simp_all add: shows_at_def view_Cons overlay_view_none
        del: lookup.simps overlay_view.simps)
qed

lemma shows_stack_empty: "shows_stack (Dir m x []) []"
  by (simp add: shows_stack_def shows_at_def)

text \<open>The part of the stack that a directory of \<open>d\<close> shows is the gathered stack.\<close>

lemma shows_at_dir:
  assumes "shows_at (Some k) ds" "is_dir k"
  shows "shows_stack k (takeWhile is_dir ds)"
proof -
  have v: "view k p = overlay_view ds p" for p using assms(1) by (simp add: shows_at_def)
  have "shows_at (lookup k [n]) (gather n (takeWhile is_dir ds))" for n
  proof (cases "lookup k [n]")
    case None
    then have "overlay_view (gather n (takeWhile is_dir ds)) [] = None"
      using v [of "[n]"] by (simp add: view_def)
    then show ?thesis using None by (cases "gather n (takeWhile is_dir ds)") (auto simp: shows_at_def)
  next
    case (Some c)
    have "view c p = overlay_view (gather n (takeWhile is_dir ds)) p" for p
      using v [of "n # p"] Some by (simp add: view_Cons del: lookup.simps)
    then show ?thesis using Some by (simp add: shows_at_def)
  qed
  then show ?thesis
    using assms(2) set_takeWhileD by (fastforce simp: shows_stack_def list_all_iff)
qed


text \<open>
  The step. A layer entry grafted under a name shows what the gathered stack shows when the layer
  has been pushed; by induction over the layer's tree.
\<close>

definition push :: "node \<Rightarrow> node list \<Rightarrow> node list" where
  "push c ds =
     (if whiteout c then [] else if is_dir c \<and> \<not> ovl_opaque c then c # takeWhile is_dir ds else [c])"

lemma gather_push:
  "gather n (d # ds) = (case lookup d [n] of None \<Rightarrow> gather n ds | Some c \<Rightarrow> push c (gather n ds))"
  by (simp add: push_def split: option.split)

lemma push_simps [simp]:
  "push (Reg m c) ds = [Reg m c]" "push (Lnk l) ds = [Lnk l]"
  "push (Chr m 0 0) ds = []"
  "push (Dir m x es) ds = Dir m x es # (if ovl_opaque (Dir m x es) then [] else takeWhile is_dir ds)"
  by (simp_all add: push_def whiteout_def)

lemma shows_at_leaf:
  assumes "is_dir d" "content_of k = content_of c" "\<not> is_dir k" "\<not> is_dir c"
  shows "shows_at (lookup (put [n] (Some k) d) [n]) [c]"
  unfolding put_singleton_same [OF assms(1)]
  using assms by (simp add: shows_at_def view_leaf overlay_view_leaf del: overlay_view.simps)

lemma shows_stack_push:
  assumes "is_dir g" "shows_stack sub S"
    and "\<And>k. case map_of es k of None \<Rightarrow> lookup g [k] = lookup sub [k]
      | Some c \<Rightarrow> shows_at (lookup g [k]) (push c (gather k S))"
  shows "shows_stack g (Dir m x es # S)"
proof -
  have "shows_at (lookup g [k]) (gather k (Dir m x es # S))" for k
  proof (cases "map_of es k")
    case None
    then have "gather k (Dir m x es # S) = gather k S" by simp
    then show ?thesis using assms(3) [of k] None assms(2)
      by (simp add: shows_stack_def del: lookup.simps gather.simps)
  next
    case (Some c)
    then have "gather k (Dir m x es # S) = push c (gather k S)"
      by (simp add: gather_push del: gather.simps)
    then show ?thesis using assms(3) [of k] Some by (simp del: lookup.simps gather.simps)
  qed
  then show ?thesis using assms(1,2) by (simp add: shows_stack_def del: lookup.simps gather.simps)
qed

lemma grafts_show:
  shows graft_shows: "is_dir d \<Longrightarrow> shows_at (lookup d [n]) ds \<Longrightarrow> compat c (lookup d [n]) \<Longrightarrow>
      ordinary c \<Longrightarrow> wf_node c \<Longrightarrow> shows_at (lookup (graft um c n d) [n]) (push c ds)"
    and graft_all_shows: "is_dir d \<Longrightarrow> \<forall>n \<in> fst ` set es. shows_at (lookup d [n]) (gather n dss) \<Longrightarrow>
      compat_all es (Some d) \<Longrightarrow> ordinary_all es \<Longrightarrow> wf_entries es \<Longrightarrow>
      (case map_of es k of
         None \<Rightarrow> lookup (graft_all um es d) [k] = lookup d [k]
       | Some c \<Rightarrow> shows_at (lookup (graft_all um es d) [k]) (push c (gather k dss)))"
proof (induction um c n d and um es d arbitrary: ds and dss k rule: graft_graft_all.induct)
  case (1 um m a b n d)
  then show ?case by (simp add: put_singleton_same shows_at_def del: lookup.simps)
next
  case (2 um m n d)
  then show ?case by simp
next
  case (3 um m c n d)
  then show ?case by (simp add: shows_at_leaf del: lookup.simps)
next
  case (4 um l n d)
  then show ?case by (simp add: shows_at_leaf del: lookup.simps)
next
  case (5 um m x es n d)
  let ?D = "Dir m x es"
  define d1 where "d1 = (if opaque_xattr x then put [n] None d else d)"
  define sub where "sub = (case lookup d1 [n] of Some k \<Rightarrow> k | None \<Rightarrow> Dir (m AND 1023 AND NOT um) [] [])"
  define S where "S = (if ovl_opaque ?D then [] else takeWhile is_dir ds)"
  have op: "opaque_xattr x = ovl_opaque ?D" using "5.prems"(4) by simp
  have d1: "is_dir d1" "lookup d1 [n] = (if opaque_xattr x then None else lookup d [n])"
    using "5.prems"(1) by (simp_all add: d1_def put_singleton_same del: lookup.simps)
  have S: "is_dir sub \<and> shows_stack sub S \<and> compat_all es (Some sub)"
  proof (cases "lookup d1 [n]")
    case None
    have "S = []"
    proof (cases "opaque_xattr x")
      case False
      then have "ds = []" using "5.prems"(2) None d1(2) by (simp add: shows_at_def del: lookup.simps)
      then show ?thesis by (simp add: S_def)
    qed (simp add: S_def op)
    moreover have "compat_all es None"
      using "5.prems"(3) None d1(2) by (auto simp: Let_def simp del: lookup.simps)
    ultimately show ?thesis
      using None by (simp add: sub_def shows_stack_empty compat_all_absent [of es "m AND 1023 AND NOT um" "[]"]
          del: lookup.simps)
  next
    case (Some k)
    then have no: "\<not> opaque_xattr x" and dk: "lookup d [n] = Some k"
      using d1(2) by (simp_all del: lookup.simps split: if_splits)
    have k: "sub = k" using Some by (simp add: sub_def del: lookup.simps)
    have c: "is_dir k" "compat_all es (Some k)"
      using no dk "5.prems"(3) by (simp_all add: Let_def del: lookup.simps)
    have "shows_at (Some k) ds" using "5.prems"(2) dk by (simp only:)
    then have "shows_stack k S" using shows_at_dir [OF _ c(1)] no op by (simp add: S_def)
    then show ?thesis using k c by simp
  qed
  let ?G = "graft_all um es sub"
  have start: "\<forall>n\<in>fst ` set es. shows_at (lookup sub [n]) (gather n S)"
    using S by (simp add: shows_stack_def del: lookup.simps gather.simps)
  have oe: "ordinary_all es" "wf_entries es" using "5.prems"(4,5) by simp_all
  have IH: "case map_of es k of None \<Rightarrow> lookup ?G [k] = lookup sub [k]
      | Some c \<Rightarrow> shows_at (lookup ?G [k]) (push c (gather k S))" for k
    using "5.IH" [OF d1_def sub_def _ start _ oe] S by blast
  have "shows_stack ?G (?D # S)"
    by (rule shows_stack_push [OF _ _ IH]) (use S in simp_all)
  then have "shows_at (Some ?G) (?D # S)"
    by (simp add: shows_at_def shows_stack_view del: overlay_view.simps)
  moreover have "graft um ?D n d = put [n] (Some ?G) d1"
    by (simp add: d1_def sub_def Let_def del: lookup.simps)
  ultimately show ?case using put_singleton_same [OF d1(1)]
    by (simp add: S_def del: graft.simps lookup.simps)
next
  case (6 um d)
  then show ?case by simp
next
  case (7 um n c es d)
  let ?d1 = "graft um c n d"
  have e: "ordinary c" "ordinary_all es" "wf_node c" "wf_entries es" "n \<notin> fst ` set es"
    "compat c (lookup d [n])" "compat_all es (Some d)" "is_dir ?d1"
    using "7.prems" by (simp_all del: lookup.simps)
  have first: "shows_at (lookup ?d1 [n]) (push c (gather n dss))"
    by (rule "7.IH"(1) [OF "7.prems"(1) _ e(6,1,3)]) (use "7.prems"(2) in \<open>simp del: lookup.simps gather.simps\<close>)
  have same: "lookup ?d1 [k] = lookup d [k]" if "k \<in> fst ` set es" for k
    using that e(5) by (metis graft_other)
  have "compat_all es (Some ?d1)" using compat_all_cong [OF same] e(7) by blast
  moreover have "\<forall>k\<in>fst ` set es. shows_at (lookup ?d1 [k]) (gather k dss)"
    using same "7.prems"(2) by (simp del: lookup.simps gather.simps)
  ultimately have rest: "case map_of es k of None \<Rightarrow> lookup (graft_all um es ?d1) [k] = lookup ?d1 [k]
      | Some c \<Rightarrow> shows_at (lookup (graft_all um es ?d1) [k]) (push c (gather k dss))" for k
    using "7.IH"(2) [OF e(8) _ _ e(2,4)] by blast
  show ?case
  proof (cases "k = n")
    case True
    have "map_of es n = None" using e(5) by (simp add: map_of_eq_None_iff)
    then show ?thesis using True rest [of n] first by (simp del: lookup.simps gather.simps)
  next
    case False
    have "lookup ?d1 [k] = lookup d [k]" using False graft_other [of n k um c d "[]"] by simp
    then show ?thesis using rest [of k] False
      by (cases "map_of es k") (simp_all del: lookup.simps gather.simps)
  qed
qed


section \<open>A replay leaves what the overlay showed\<close>

text \<open>A tree without whiteouts in it, as the workspace is.\<close>

fun no_whiteouts :: "node \<Rightarrow> bool"
  and no_whiteouts_all :: "(string \<times> node) list \<Rightarrow> bool"
where
  "no_whiteouts (Chr m a b) = (a \<noteq> 0 \<or> b \<noteq> 0)"
| "no_whiteouts (Special m) = True"
| "no_whiteouts (Reg m c) = True"
| "no_whiteouts (Lnk l) = True"
| "no_whiteouts (Dir m x es) = no_whiteouts_all es"
| "no_whiteouts_all [] = True"
| "no_whiteouts_all ((n, c) # es) = (no_whiteouts c \<and> no_whiteouts_all es)"

lemma no_whiteouts_all_member: "no_whiteouts_all es \<Longrightarrow> map_of es n = Some c \<Longrightarrow> no_whiteouts c"
  by (induction es) (auto split: if_splits)

lemma no_whiteouts_child: "no_whiteouts d \<Longrightarrow> lookup d [n] = Some c \<Longrightarrow> no_whiteouts c"
  by (cases d) (auto dest: no_whiteouts_all_member split: option.splits)

lemma not_whiteout: "no_whiteouts c \<Longrightarrow> \<not> whiteout c"
  by (cases c) (auto simp: whiteout_def)

lemma gather_single:
  "no_whiteouts d \<Longrightarrow> gather n [d] = (case lookup d [n] of None \<Rightarrow> [] | Some c \<Rightarrow> [c])"
  using not_whiteout no_whiteouts_child [of d n] by (simp del: lookup.simps split: option.split)

lemma view_single: "no_whiteouts d \<Longrightarrow> view d p = overlay_view [d] p"
proof (induction p arbitrary: d)
  case Nil
  then show ?case by (simp add: view_def)
next
  case (Cons n p)
  show ?case
  proof (cases "is_dir d")
    case True
    show ?thesis
    proof (cases "lookup d [n]")
      case None
      then show ?thesis using Cons.prems True
        by (simp add: view_Cons gather_single overlay_view_none del: lookup.simps gather.simps)
    next
      case (Some c)
      have "view c p = overlay_view [c] p"
        by (rule Cons.IH [OF no_whiteouts_child [OF Cons.prems Some]])
      then show ?thesis using Cons.prems True Some
        by (simp add: view_Cons gather_single del: lookup.simps gather.simps)
    qed
  next
    case False
    then have "takeWhile is_dir [d] = []" by simp
    then have "overlay_view [d] (n # p) = None" by (simp only: overlay_view.simps gather.simps overlay_view_none)
    then show ?thesis using False by (simp add: view_def lookup_not_dir del: lookup.simps overlay_view.simps)
  qed
qed

lemma shows_stack_single:
  assumes "is_dir d" "no_whiteouts d"
  shows "shows_stack d [d]"
proof -
  have "shows_at (lookup d [n]) (gather n [d])" for n
    using gather_single [OF assms(2)] view_single no_whiteouts_child [OF assms(2), of n]
    by (simp add: shows_at_def del: lookup.simps gather.simps overlay_view.simps split: option.split)
  then show ?thesis using assms(1) by (simp add: shows_stack_def del: lookup.simps gather.simps)
qed

text \<open>One layer, then all of them.\<close>

lemma graft_layer_shows:
  assumes "shows_stack d S" "is_dir l" "wf_node l" "ordinary l" "compat_all (entries l) (Some d)"
  shows "shows_stack (graft_all um (entries l) d) (l # S)"
proof -
  obtain m x es where l: "l = Dir m x es" using assms(2) by (rule is_dirE)
  have d: "is_dir d" "\<And>n. shows_at (lookup d [n]) (gather n S)"
    using assms(1) by (simp_all add: shows_stack_def)
  show ?thesis
    unfolding l entries.simps
  proof (rule shows_stack_push [OF _ assms(1)])
    show "case map_of es k of None \<Rightarrow> lookup (graft_all um es d) [k] = lookup d [k]
        | Some c \<Rightarrow> shows_at (lookup (graft_all um es d) [k]) (push c (gather k S))" for k
      using assms(3-5) d by (intro graft_all_shows) (simp_all add: l del: lookup.simps gather.simps)
  qed (simp add: d)
qed

lemma replay_shows:
  assumes "shows_stack d S" "replayable um ls d" "list_all wf_node ls" "list_all ordinary ls"
  shows "shows_stack (replay um ls d) (rev ls @ S)"
  using assms
proof (induction ls arbitrary: d S)
  case (Cons l ls)
  have "shows_stack (graft_all um (entries l) d) (l # S)"
    using Cons.prems by (intro graft_layer_shows) auto
  then have "shows_stack (replay um ls (graft_all um (entries l) d)) (rev ls @ l # S)"
    using Cons.prems by (intro Cons.IH) auto
  then show ?case by (simp add: replay_def)
qed (simp add: replay_def)

text \<open>
  Replaying the layers onto the workspace \<open>d\<close> leaves there what the overlay with these layers,
  newest first, over \<open>d\<close> showed.
\<close>

lemma replay_is_overlay:
  assumes "is_dir d" "no_whiteouts d" "replayable um ls d" "list_all wf_node ls" "list_all ordinary ls"
  shows "view (replay um ls d) p = overlay_view (rev ls @ [d]) p"
  using replay_shows [OF shows_stack_single [OF assms(1,2)] assms(3-5)]
  by (rule shows_stack_view) simp

end
