(* ===== verification/CowDiff.thy ===== *)
theory CowDiff
  imports Overlay
begin

text \<open>
  \<^verbatim>\<open>agentbox_cow_diff\<close> of \<^verbatim>\<open>src/c/agentbox_cow.c\<close>: the walk over every layer, oldest first, that
  records one \<^verbatim>\<open>M <path>\<close> or \<^verbatim>\<open>D <path>\<close> entry per path. A pure list of events per layer and the
  association-list update of the library specify it; the second half relates the entries to what
  the overlay shows.
\<close>

section \<open>The code\<close>

definition sizeof_diff_entry :: nat where "sizeof_diff_entry = 16"

definition diff_set :: "world \<Rightarrow> string \<Rightarrow> char \<Rightarrow> cow_globals \<Rightarrow> cow_globals" where
  "diff_set w relpath status g =
     (if relpath \<in> fst ` set (g_diff_entries g)
      then g\<lparr>g_diff_entries := AList.update relpath status (g_diff_entries g)\<rparr>
      else if length (g_diff_entries g) = g_diff_cap g
      then (let new_cap = (if g_diff_cap g = 0 then 64 else g_diff_cap g * 2) in
            if \<not> mem w (new_cap * sizeof_diff_entry) then g\<lparr>g_diff_error := AGENTBOX_ERR_IO\<rparr>
            else g\<lparr>g_diff_cap := new_cap, g_diff_entries := g_diff_entries g @ [(relpath, status)]\<rparr>)
      else g\<lparr>g_diff_entries := g_diff_entries g @ [(relpath, status)]\<rparr>)"

definition diff_visit :: "world \<Rightarrow> string \<Rightarrow> stat \<Rightarrow> ftwflag \<Rightarrow> cow_globals \<Rightarrow> int \<times> cow_globals" where
  "diff_visit w path sb typeflag g =
     (if typeflag = FTW_DNR \<or> typeflag = FTW_NS
      then (-1, g\<lparr>g_diff_error := AGENTBOX_ERR_IO\<rparr>)
      else (case rel_from_layer g path of
          None \<Rightarrow> (0, g)
        | Some rel \<Rightarrow>
            if rel = [] then (0, g)
            else (let g1 = (if is_whiteout sb then diff_set w rel (CHR ''D'') g
                            else if st_type sb \<noteq> S_IFDIR then diff_set w rel (CHR ''M'') g
                            else g)
                  in (if g_diff_error g1 \<noteq> AGENTBOX_OK then -1 else 0, g1))))"

fun diff_layers :: "string list \<Rightarrow> world \<Rightarrow> cow_globals \<Rightarrow> errcode \<times> cow_globals" where
  "diff_layers [] w g = (AGENTBOX_OK, g)"
| "diff_layers (layer # layers) w g =
     (let (rc, g2) = nftw w False (diff_visit w) layer (g\<lparr>g_merge_layer_root := layer\<rparr>)
      in if rc \<noteq> 0 \<or> g_diff_error g2 \<noteq> AGENTBOX_OK
         then (if g_diff_error g2 \<noteq> AGENTBOX_OK then g_diff_error g2 else AGENTBOX_ERR_IO, g2)
         else diff_layers layers w g2)"

definition diff_line :: "string \<times> char \<Rightarrow> string" where
  "diff_line e = snprintf (PATH_MAX + 4) (snd e # CHR '' '' # fst e)"

definition agentbox_cow_diff ::
  "string list \<Rightarrow> cow_globals \<times> world \<Rightarrow> (errcode + string list) \<times> cow_globals \<times> world" where
  "agentbox_cow_diff layer_dirs = (\<lambda>(g, w).
     (let g0 = g\<lparr>g_diff_entries := [], g_diff_cap := 0, g_diff_error := AGENTBOX_OK\<rparr>;
          (rc, g1) = diff_layers layer_dirs w g0;
          count = length (g_diff_entries g1)
      in if rc \<noteq> AGENTBOX_OK then (Inl rc, (g1, w))
         else if \<not> mem w ((if count = 0 then 1 else count) * 8) then (Inl AGENTBOX_ERR_IO, (g1, w))
         else (Inr (map diff_line (g_diff_entries g1)), (g1, w))))"


section \<open>A log in which the last write of a key wins\<close>

text \<open>
  The contract of the growable array with its linear scan: while nothing fails, recording a pair
  updates the association list of the state.
\<close>

locale keyed_log =
  fixes put_item :: "'k \<Rightarrow> 'v \<Rightarrow> 's \<Rightarrow> 's"
    and items :: "'s \<Rightarrow> ('k \<times> 'v) list"
    and failed :: "'s \<Rightarrow> bool"
  assumes put_item_ok: "\<not> failed (put_item k v s) \<Longrightarrow> items (put_item k v s) = AList.update k v (items s)"
    and put_item_failed: "failed s \<Longrightarrow> failed (put_item k v s)"
begin

abbreviation put_items :: "('k \<times> 'v) list \<Rightarrow> 's \<Rightarrow> 's" where
  "put_items \<equiv> fold (\<lambda>(k, v). put_item k v)"

lemma put_items_failed: "failed s \<Longrightarrow> failed (put_items evs s)"
  by (induction evs arbitrary: s) (auto simp: put_item_failed)

lemma put_items_items:
  "\<not> failed (put_items evs s) \<Longrightarrow> items (put_items evs s) = fold (\<lambda>(k, v). AList.update k v) evs (items s)"
proof (induction evs arbitrary: s)
  case (Cons e evs)
  obtain k v where e: "e = (k, v)" by fastforce
  have "\<not> failed (put_item k v s)" using Cons.prems put_items_failed e by fastforce
  then show ?case using Cons e by (simp add: put_item_ok)
qed simp

lemma put_items_distinct:
  "\<not> failed (put_items evs s) \<Longrightarrow> distinct (map fst (items s)) \<Longrightarrow> distinct (map fst (items (put_items evs s)))"
  by (simp add: put_items_items distinct_keys_updates)

lemma put_items_last:
  "\<not> failed (put_items evs s) \<Longrightarrow>
     map_of (items (put_items evs s)) k = (case map_of (rev evs) k of None \<Rightarrow> map_of (items s) k | Some v \<Rightarrow> Some v)"
  by (simp add: put_items_items map_of_updates)

end

text \<open>The array of the diff keeps this contract.\<close>

interpretation difflog: keyed_log "diff_set w" g_diff_entries "\<lambda>g. g_diff_error g \<noteq> AGENTBOX_OK" for w
  by unfold_locales (auto simp: diff_set_def Let_def update_append_new split: if_splits)


section \<open>The events of a layer\<close>

text \<open>
  The non-directories of a tree in the order of the walk, each with its status; \<open>r\<close> is the path
  of the tree below the layer's root.
\<close>

fun diff_node :: "path \<Rightarrow> node \<Rightarrow> (path \<times> char) list"
  and diff_entries :: "path \<Rightarrow> (string \<times> node) list \<Rightarrow> (path \<times> char) list"
where
  "diff_node r (Dir m x es) = diff_entries r es"
| "diff_node r (Chr m a b) = [(r, if a = 0 \<and> b = 0 then CHR ''D'' else CHR ''M'')]"
| "diff_node r (Reg m c) = [(r, CHR ''M'')]"
| "diff_node r (Lnk l) = [(r, CHR ''M'')]"
| "diff_node r (Special m) = [(r, CHR ''M'')]"
| "diff_entries r [] = []"
| "diff_entries r ((n, c) # es) = diff_node (r @ [n]) c @ diff_entries r es"

definition rel_str :: "path \<Rightarrow> string" where
  "rel_str r = tl (slashed r)"

definition rel_events :: "(path \<times> char) list \<Rightarrow> (string \<times> char) list" where
  "rel_events = map (\<lambda>(r, s). (rel_str r, s))"

text \<open>The walk records the events, provided every allocation succeeds.\<close>

lemma diff_set_keeps [simp]:
  "g_merge_layer_root (diff_set w k v g) = g_merge_layer_root g"
  "(\<And>n. mem w n) \<Longrightarrow> g_diff_error (diff_set w k v g) = g_diff_error g"
  by (simp_all add: diff_set_def Let_def)

lemma put_items_keeps:
  "g_merge_layer_root (fold (\<lambda>(k, v). diff_set w k v) evs g) = g_merge_layer_root g"
  "(\<And>n. mem w n) \<Longrightarrow> g_diff_error (fold (\<lambda>(k, v). diff_set w k v) evs g) = g_diff_error g"
  by (induction evs arbitrary: g) auto

definition diffing :: "string \<Rightarrow> path \<Rightarrow> world \<Rightarrow> cow_globals \<Rightarrow> bool" where
  "diffing lroot r w g \<longleftrightarrow>
     quiet w \<and> (\<forall>n. mem w n) \<and> g_merge_layer_root g = lroot \<and> list_all wf_name r \<and> g_diff_error g = AGENTBOX_OK"

lemma diffing_after: "diffing lroot r w g \<Longrightarrow> diffing lroot r w (fold (\<lambda>(k, v). diff_set w k v) evs g)"
  by (simp add: diffing_def put_items_keeps)

lemma diff_visit_records:
  assumes "diffing lroot r w g" "r \<noteq> []" "\<not> is_dir c" "flag \<noteq> FTW_DNR" "flag \<noteq> FTW_NS"
  shows "diff_visit w (lroot @ slashed r) (stat_of c) flag g
     = (0, fold (\<lambda>(k, v). diff_set w k v) (rel_events (diff_node r c)) g)"
proof -
  obtain k q where r: "r = k # q" using assms(2) by (cases r) auto
  have "rel_from_layer g (lroot @ slashed r) = Some (rel_str r)" "rel_str r \<noteq> []"
    using assms(1) rel_from_layer_below [of g lroot k q]
    by (auto simp: r diffing_def rel_str_def wf_name_def)
  with assms show ?thesis
    by (cases c) (auto simp: diff_visit_def diffing_def rel_events_def is_whiteout_def Let_def
        simp del: slashed_simps)
qed

lemma diff_visit_dir:
  assumes "diffing lroot r w g"
  shows "diff_visit w (lroot @ slashed r) (stat_of (Dir m x es)) FTW_D g = (0, g)"
  using assms by (auto simp: diff_visit_def diffing_def is_whiteout_def split: option.split)

lemma diff_walk:
  shows diff_walk_node: "diffing lroot r w g \<Longrightarrow> wf_node c \<Longrightarrow> r \<noteq> [] \<or> is_dir c \<Longrightarrow>
      until_nonzero (ftw_call (diff_visit w)) (ftw_node (refuse w) False (lroot @ slashed r) c) g
        = (0, fold (\<lambda>(k, v). diff_set w k v) (rel_events (diff_node r c)) g)"
    and diff_walk_entries: "diffing lroot r w g \<Longrightarrow> wf_entries es \<Longrightarrow>
      until_nonzero (ftw_call (diff_visit w)) (ftw_entries (refuse w) False (lroot @ slashed r) es) g
        = (0, fold (\<lambda>(k, v). diff_set w k v) (rel_events (diff_entries r es)) g)"
proof (induction c and es arbitrary: r g and r g rule: wf_node_wf_entries.induct)
  case (1 m x es)
  have "quiet w" using "1.prems"(1) by (simp add: diffing_def)
  then show ?case
    using "1.IH" [OF "1.prems"(1)] "1.prems"(2) diff_visit_dir [OF "1.prems"(1)] by simp
next
  case (7 n c es)
  let ?g1 = "fold (\<lambda>(k, v). diff_set w k v) (rel_events (diff_node (r @ [n]) c)) g"
  have "diffing lroot (r @ [n]) w g" using "7.prems" by (simp add: diffing_def)
  then have "until_nonzero (ftw_call (diff_visit w)) (ftw_node (refuse w) False (lroot @ slashed (r @ [n])) c) g = (0, ?g1)"
    using "7.IH"(1) [of "r @ [n]" g] "7.prems"(2) by simp
  moreover have "until_nonzero (ftw_call (diff_visit w)) (ftw_entries (refuse w) False (lroot @ slashed r) es) ?g1
      = (0, fold (\<lambda>(k, v). diff_set w k v) (rel_events (diff_entries r es)) ?g1)"
    using "7.IH"(2) [OF diffing_after [OF "7.prems"(1)]] "7.prems"(2) by simp
  moreover have "quiet w" using "7.prems"(1) by (simp add: diffing_def)
  ultimately show ?case
    by (simp add: until_nonzero_append_ok Let_def rel_events_def)
next
  case (2 l)
  then show ?case by (simp add: diff_visit_records del: slashed_simps diff_node.simps stat_of.simps)
next
  case (3 m c)
  then show ?case by (simp add: diff_visit_records del: slashed_simps diff_node.simps stat_of.simps)
next
  case (4 m a b)
  then show ?case by (simp add: diff_visit_records del: slashed_simps diff_node.simps stat_of.simps)
next
  case (5 m)
  then show ?case by (simp add: diff_visit_records del: slashed_simps diff_node.simps stat_of.simps)
qed (simp add: rel_events_def)


section \<open>The whole diff\<close>

definition diff_events :: "node list \<Rightarrow> (path \<times> char) list" where
  "diff_events ls = concat (map (diff_node []) ls)"

definition diff_log :: "node list \<Rightarrow> (string \<times> char) list" where
  "diff_log ls = fold (\<lambda>(k, v). AList.update k v) (rel_events (diff_events ls)) []"

definition layer_named :: "world \<Rightarrow> string \<Rightarrow> node \<Rightarrow> bool" where
  "layer_named w s l \<longleftrightarrow>
     list_all wf_name (comps s) \<and> comps s \<noteq> [] \<and> lookup (fs w) (comps s) = Some l \<and> is_dir l"

lemma diff_layers_record:
  assumes "list_all2 (layer_named w) layers ls" "quiet w" "\<forall>n. mem w n" "wf_node (fs w)"
    and "g_diff_error g = AGENTBOX_OK"
  shows "\<exists>g'. diff_layers layers w g = (AGENTBOX_OK, g')
     \<and> g_diff_entries g' = fold (\<lambda>(k, v). AList.update k v) (rel_events (diff_events ls)) (g_diff_entries g)"
  using assms
proof (induction layers ls arbitrary: g rule: list_all2_induct)
  case Nil
  then show ?case by (simp add: diff_events_def rel_events_def)
next
  case (Cons s layers l ls)
  let ?g = "g\<lparr>g_merge_layer_root := s\<rparr>"
  let ?g2 = "fold (\<lambda>(k, v). diff_set w k v) (rel_events (diff_node [] l)) ?g"
  have l: "comps s \<noteq> []" "list_all wf_name (comps s)" "lookup (fs w) (comps s) = Some l" "is_dir l"
    using Cons.hyps(1) by (simp_all add: layer_named_def)
  have "names w s (comps s)" using l by (intro names_dir) (auto simp: dir_at_def)
  then have st: "sys_lstat s w = Inr l" using l(3) Cons.prems(1) by (simp add: quiet_lstat)
  have d: "diffing s [] w ?g" using Cons.prems by (simp add: diffing_def)
  have "nftw w False (diff_visit w) s ?g = (0, ?g2)"
    using diff_walk_node [OF d wf_node_lookup [OF Cons.prems(3) l(3)]] l(4) st by (simp add: nftw_def)
  moreover have ok2: "g_diff_error ?g2 = AGENTBOX_OK" using diffing_after [OF d] by (simp add: diffing_def)
  ultimately have "diff_layers (s # layers) w g = diff_layers layers w ?g2" by simp
  moreover have "g_diff_entries ?g2 = fold (\<lambda>(k, v). AList.update k v) (rel_events (diff_node [] l)) (g_diff_entries g)"
    using difflog.put_items_items [of w "rel_events (diff_node [] l)" ?g] ok2 by simp
  ultimately show ?case
    using Cons.IH [of ?g2] Cons.prems ok2 by (simp add: diff_events_def rel_events_def)
qed

lemma cow_diff_lines:
  assumes "list_all2 (layer_named w) layers ls" "quiet w" "\<forall>n. mem w n" "wf_node (fs w)"
  shows "\<exists>g'. agentbox_cow_diff layers (g, w) = (Inr (map diff_line (diff_log ls)), (g', w))"
proof -
  let ?g = "g\<lparr>g_diff_entries := [], g_diff_cap := 0, g_diff_error := AGENTBOX_OK\<rparr>"
  obtain g' where "diff_layers layers w ?g = (AGENTBOX_OK, g')" "g_diff_entries g' = diff_log ls"
    using diff_layers_record [OF assms, of ?g] by (auto simp: diff_log_def)
  then show ?thesis using assms(3) by (simp add: agentbox_cow_diff_def)
qed


section \<open>What the entries say\<close>

text \<open>The newest non-directory that a list of layers, newest first, has at a path.\<close>

fun hit :: "node list \<Rightarrow> path \<Rightarrow> node option" where
  "hit [] p = None"
| "hit (l # ls) p = (case lookup l p of
     None \<Rightarrow> hit ls p
   | Some k \<Rightarrow> if is_dir k then hit ls p else Some k)"

definition entry_status :: "node \<Rightarrow> char" where
  "entry_status k = (if whiteout k then CHR ''D'' else CHR ''M'')"

lemma hit_append: "hit (xs @ ys) p = (case hit xs p of None \<Rightarrow> hit ys p | Some k \<Rightarrow> Some k)"
  by (induction xs) (auto split: option.split simp del: lookup.simps)

lemma hit_takeWhile: "hit (takeWhile P xs) p = Some k \<Longrightarrow> hit xs p = Some k"
  by (metis hit_append option.simps(5) takeWhile_dropWhile_id)

lemma hit_gather: "hit (gather n ds) (m # q) = Some k \<Longrightarrow> hit ds (n # m # q) = Some k"
proof (induction ds)
  case (Cons d ds)
  show ?case
  proof (cases "lookup d [n]")
    case None
    then have "lookup d (n # m # q) = None" using lookup_append [of d "[n]" "m # q"] by simp
    moreover have "gather n (d # ds) = gather n ds" using None by simp
    ultimately show ?thesis using Cons by (simp del: lookup.simps gather.simps)
  next
    case (Some c)
    then have l: "lookup d (n # m # q) = lookup c (m # q)" using lookup_append [of d "[n]" "m # q"] by simp
    have g: "gather n (d # ds) = push c (gather n ds)" using Some by (simp add: gather_push del: gather.simps)
    show ?thesis
    proof (cases "is_dir c \<and> \<not> ovl_opaque c \<and> \<not> whiteout c")
      case True
      then have "hit (c # takeWhile is_dir (gather n ds)) (m # q) = Some k"
        using Cons.prems g by (simp add: push_def)
      then show ?thesis using Cons.IH hit_takeWhile [of is_dir "gather n ds" "m # q" k] l
        by (auto simp del: lookup.simps gather.simps split: option.splits if_splits)
    next
      case False
      then have "hit [c] (m # q) = Some k" using Cons.prems g by (auto simp: push_def split: if_splits)
      then show ?thesis using l by (auto simp del: lookup.simps split: option.splits if_splits)
    qed
  qed
qed simp

lemma gather_top:
  "gather n ds = c # cs \<Longrightarrow> \<not> is_dir c \<Longrightarrow> hit ds [n] = Some c \<and> \<not> whiteout c"
proof (induction ds)
  case (Cons d ds)
  then show ?case
    by (cases "lookup d [n]") (auto simp del: lookup.simps split: if_splits)
qed simp

text \<open>A file that the overlay shows is the newest non-directory of the stack at its path.\<close>

lemma overlay_hit:
  "overlay_view ds p = Some c \<Longrightarrow> c \<noteq> CDir \<Longrightarrow> p \<noteq> [] \<Longrightarrow>
     \<exists>k. hit ds p = Some k \<and> content_of k = c \<and> \<not> whiteout k"
proof (induction p arbitrary: ds)
  case (Cons n p)
  let ?ds = "takeWhile is_dir ds"
  have v: "overlay_view (gather n ?ds) p = Some c" using Cons.prems(1) by simp
  have "\<exists>k. hit ?ds (n # p) = Some k \<and> content_of k = c \<and> \<not> whiteout k"
  proof (cases p)
    case Nil
    then obtain k ks where "gather n ?ds = k # ks" "content_of k = c"
      using v by (cases "gather n ?ds") auto
    then show ?thesis using gather_top Cons.prems(2) Nil by (metis content_of_dir)
  next
    case (Cons m q)
    then obtain k where "hit (gather n ?ds) p = Some k" "content_of k = c" "\<not> whiteout k"
      using Cons.IH [OF v] Cons.prems by auto
    then show ?thesis using hit_gather [of n ?ds m q k] Cons by simp
  qed
  then show ?case using hit_takeWhile by blast
qed simp


section \<open>The entries of the log\<close>

lemma ex_map_of_Cons:
  "map_of es n = None \<Longrightarrow>
     (\<exists>k e. map_of ((n, c) # es) k = Some e \<and> P k e) \<longleftrightarrow> P n c \<or> (\<exists>k e. map_of es k = Some e \<and> P k e)"
  by (metis map_of_Cons_code(2) option.inject option.distinct(1))

definition leaf_at :: "node \<Rightarrow> path \<Rightarrow> char \<Rightarrow> bool" where
  "leaf_at c q s \<longleftrightarrow> (case lookup c q of None \<Rightarrow> False | Some k \<Rightarrow> \<not> is_dir k \<and> s = entry_status k)"

lemma leaf_at_Dir:
  "leaf_at (Dir m x es) q s \<longleftrightarrow> (\<exists>n c. map_of es n = Some c \<and> (\<exists>q'. q = n # q' \<and> leaf_at c q' s))"
  by (cases q) (auto simp: leaf_at_def split: option.splits)

lemma leaf_at_leaf: "\<not> is_dir c \<Longrightarrow> leaf_at c q s \<longleftrightarrow> q = [] \<and> s = entry_status c"
  by (cases q) (auto simp: leaf_at_def lookup_not_dir simp del: lookup.simps(2))

lemma diff_members:
  shows diff_node_members: "wf_node c \<Longrightarrow> (p, s) \<in> set (diff_node r c) \<longleftrightarrow> (\<exists>q. p = r @ q \<and> leaf_at c q s)"
    and diff_entries_members: "wf_entries es \<Longrightarrow> (p, s) \<in> set (diff_entries r es) \<longleftrightarrow>
      (\<exists>n c. map_of es n = Some c \<and> (\<exists>q. p = r @ n # q \<and> leaf_at c q s))"
proof (induction c and es arbitrary: r and r rule: wf_node_wf_entries.induct)
  case (1 m x es)
  then show ?case by (auto simp: leaf_at_Dir)
next
  case (7 n c es)
  have "map_of es n = None" using "7.prems" by (simp add: map_of_eq_None_iff)
  from ex_map_of_Cons [OF this] 7 show ?case by simp
qed (auto simp: leaf_at_leaf entry_status_def whiteout_def)

lemma diff_node_status:
  assumes "wf_node c" "is_dir c"
  shows "map_of (rev (diff_node [] c)) p = (case lookup c p of
     None \<Rightarrow> None | Some k \<Rightarrow> if is_dir k then None else Some (entry_status k))"
proof -
  have mem: "(p, s) \<in> set (rev (diff_node [] c)) \<longleftrightarrow> leaf_at c p s" for s
    using diff_node_members [OF assms(1), of p s "[]"] by simp
  show ?thesis
  proof (cases "map_of (rev (diff_node [] c)) p")
    case None
    then have "\<not> leaf_at c p (entry_status (the (lookup c p)))"
      using mem [of "entry_status (the (lookup c p))"] by (force simp: map_of_eq_None_iff)
    then show ?thesis using None by (auto simp: leaf_at_def split: option.split)
  next
    case (Some s)
    then have "leaf_at c p s" using mem map_of_SomeD by fastforce
    then show ?thesis using Some by (auto simp: leaf_at_def split: option.splits)
  qed
qed

lemma diff_events_status:
  "list_all wf_node ls \<Longrightarrow> list_all is_dir ls \<Longrightarrow>
     map_of (rev (diff_events ls)) p = map_option entry_status (hit (rev ls) p)"
proof (induction ls)
  case (Cons l ls)
  have "rev (diff_events (l # ls)) = rev (diff_events ls) @ rev (diff_node [] l)"
    by (simp add: diff_events_def)
  with Cons show ?case
    by (auto simp: map_add_def diff_node_status hit_append simp del: lookup.simps split: option.split)
qed (simp add: diff_events_def)

lemma comps_rel_str: "list_all wf_name p \<Longrightarrow> comps (rel_str p) = p"
  using comps_slashed [of "tl p" "hd p"] by (cases p) (simp_all add: rel_str_def comps_name)

lemma wf_node_lookup_names: "wf_node t \<Longrightarrow> lookup t p = Some n \<Longrightarrow> list_all wf_name p"
proof (induction t p rule: lookup.induct)
  case (2 t k p)
  from "2.prems"(2) obtain c where c: "map_of (entries t) k = Some c" "lookup c p = Some n"
    by (auto split: option.splits)
  have "wf_node c \<and> wf_name k"
    using "2.prems"(1) map_of_in_set [OF c(1)] by (cases t) (auto simp: wf_entries_iff)
  with "2.IH" c show ?case by auto
qed simp

lemma diff_events_names:
  assumes "list_all wf_node ls" "list_all is_dir ls" "(p, s) \<in> set (diff_events ls)"
  shows "list_all wf_name p \<and> p \<noteq> []"
proof -
  obtain l where l: "l \<in> set ls" "(p, s) \<in> set (diff_node [] l)"
    using assms(3) by (auto simp: diff_events_def)
  then have "wf_node l" "is_dir l" using assms(1,2) by (auto simp: list_all_iff)
  moreover from this l have "leaf_at l p s" using diff_node_members [of l p s "[]"] by simp
  ultimately show ?thesis
    using wf_node_lookup_names [of l p] by (auto simp: leaf_at_def split: option.splits)
qed

lemma map_of_rel_events:
  assumes "list_all wf_name p" "\<And>q s. (q, s) \<in> set evs \<Longrightarrow> list_all wf_name q"
  shows "map_of (rel_events evs) (rel_str p) = map_of evs p"
  using assms(2)
proof (induction evs)
  case (Cons e evs)
  obtain q s where e: "e = (q, s)" by fastforce
  have "list_all wf_name q" using Cons.prems e by auto
  then have "rel_str q = rel_str p \<longleftrightarrow> q = p" using comps_rel_str assms(1) by metis
  then show ?case using Cons e by (auto simp: rel_events_def)
qed (simp add: rel_events_def)

text \<open>The status of a path in the log is the status of the newest non-directory there.\<close>

lemma diff_log_status:
  assumes "list_all wf_node ls" "list_all is_dir ls" "list_all wf_name p"
  shows "map_of (diff_log ls) (rel_str p) = map_option entry_status (hit (rev ls) p)"
proof -
  have "map_of (rev (rel_events (diff_events ls))) (rel_str p) = map_of (rev (diff_events ls)) p"
    using map_of_rel_events [OF assms(3), of "rev (diff_events ls)"] diff_events_names [OF assms(1,2)]
    by (simp add: rel_events_def rev_map)
  then show ?thesis
    using diff_events_status [OF assms(1,2)] by (simp add: diff_log_def map_of_updates split: option.split)
qed

lemma diff_log_distinct: "distinct (map fst (diff_log ls))"
  unfolding diff_log_def by (rule distinct_keys_updates) simp

lemma diff_log_keys:
  assumes "list_all wf_node ls" "list_all is_dir ls" "(k, s) \<in> set (diff_log ls)"
  obtains p where "k = rel_str p" "list_all wf_name p" "p \<noteq> []" "map_option entry_status (hit (rev ls) p) = Some s"
proof -
  have m: "map_of (diff_log ls) k = Some s"
    using assms(3) diff_log_distinct by (simp add: map_of_iff_in_set)
  then have "map_of (rev (rel_events (diff_events ls))) k = Some s"
    by (simp add: diff_log_def map_of_updates split: option.splits)
  then have "(k, s) \<in> set (rel_events (diff_events ls))" using map_of_SomeD by fastforce
  then obtain p where p: "k = rel_str p" "(p, s) \<in> set (diff_events ls)" by (auto simp: rel_events_def)
  from diff_events_names [OF assms(1,2) p(2)] have "list_all wf_name p" "p \<noteq> []" by auto
  with that p(1) m diff_log_status [OF assms(1,2)] show thesis by metis
qed

lemma diff_line_inj:
  "length (fst e) \<le> PATH_MAX \<Longrightarrow> diff_line e = diff_line e' \<Longrightarrow> e = e'"
proof -
  assume len: "length (fst e) \<le> PATH_MAX" and eq: "diff_line e = diff_line e'"
  have e: "diff_line e = snd e # CHR '' '' # fst e" using len by (simp add: diff_line_def)
  then have "length (diff_line e') < PATH_MAX + 3" using eq len by simp
  then have "diff_line e' = snd e' # CHR '' '' # fst e'"
    by (auto simp: diff_line_def snprintf_def take_Cons' split: if_splits)
  then show ?thesis using e eq by (simp add: prod_eq_iff)
qed

text \<open>
  A file that the overlay of the layers \<open>ls\<close> over \<open>d\<close> shows is in the log as \<open>M\<close>, or it is not
  in the log and is the workspace's own; so what the log calls \<open>D\<close> is not shown as a file.
\<close>

lemma diff_log_complete:
  assumes "list_all wf_node ls" "list_all is_dir ls" "list_all wf_name p" "p \<noteq> []"
    and "overlay_view (rev ls @ [d]) p = Some c" "c \<noteq> CDir"
  shows "map_of (diff_log ls) (rel_str p) = Some (CHR ''M'')
    \<or> map_of (diff_log ls) (rel_str p) = None \<and> view d p = Some c"
proof -
  from overlay_hit [OF assms(5,6,4)] obtain k
    where k: "hit (rev ls @ [d]) p = Some k" "content_of k = c" "\<not> whiteout k" by blast
  show ?thesis
  proof (cases "hit (rev ls) p")
    case None
    then have "hit [d] p = Some k" using k(1) by (simp add: hit_append)
    then have "view d p = Some c" using k(2)
      by (auto simp: view_def simp del: lookup.simps split: option.splits if_splits)
    then show ?thesis using None diff_log_status [OF assms(1-3)] by simp
  next
    case (Some k')
    then show ?thesis using k diff_log_status [OF assms(1-3)] by (simp add: hit_append entry_status_def)
  qed
qed

end
