(* ===== verification/Supervisor.thy ===== *)
theory Supervisor
  imports CowDiff
begin

text \<open>
  The supervisor side of \<^verbatim>\<open>src/c/agentbox_core.c\<close>: the state of a running sandbox and the
  handlers of the checkpoint, rollback, commit, diff and shutdown requests.
\<close>

section \<open>The state\<close>

text \<open>\<^verbatim>\<open>agentbox_checkpoint_t\<close>.\<close>

record checkpoint =
  ck_id :: string
  ck_tag :: string
  ck_layer_dir :: string
  ck_created_at_ms :: int

text \<open>
  \<^verbatim>\<open>supervisor_state_t\<close>. The checkpoint table with its count is the list of the live entries,
  oldest first; the counters are C ints, whose range \<open>counters_ok\<close> states where it matters.
\<close>

record supervisor_state =
  workspace_dir :: string
  runtime_dir :: string
  merged_dir :: string
  live_upper :: string
  live_work :: string
  generation :: int
  next_checkpoint_num :: int
  run_counter :: int
  checkpoints :: "checkpoint list"

definition checkpoint_count :: "supervisor_state \<Rightarrow> nat" where
  "checkpoint_count st = length (checkpoints st)"

definition now_ms :: "world \<Rightarrow> int" where
  "now_ms w = clock_ms w"


section \<open>Generations and the overlay mount\<close>

definition new_generation_dirs :: "supervisor_state \<Rightarrow> world \<Rightarrow> supervisor_state \<times> world" where
  "new_generation_dirs st w =
     (let g = generation st + 1;
          up = snprintf AGENTBOX_PATH_LEN (runtime_dir st @ ''/upper_'' @ dec_of_int g);
          wk = snprintf AGENTBOX_PATH_LEN (runtime_dir st @ ''/work_'' @ dec_of_int g);
          w1 = snd (sys_mkdir up 448 w);
          w2 = snd (sys_mkdir wk 448 w1)
      in (st\<lparr>generation := g, live_upper := up, live_work := wk\<rparr>, w2))"

text \<open>
  The loop of \<^verbatim>\<open>build_lower_stack\<close>: \<open>off\<close> is the offset, \<open>out\<close> what the buffer of \<open>out_len\<close> bytes
  holds. The final \<^verbatim>\<open>snprintf\<close> gets the size \<open>out_len - off\<close>, a \<^verbatim>\<open>size_t\<close>: with an offset beyond
  the buffer it would write out of bounds, which is the value None.
\<close>

fun lower_stack_loop :: "string list \<Rightarrow> nat \<Rightarrow> nat \<Rightarrow> string \<Rightarrow> nat \<times> string" where
  "lower_stack_loop [] out_len off out = (off, out)"
| "lower_stack_loop (layer # layers) out_len off out =
     (if off < out_len
      then lower_stack_loop layers out_len (off + length (layer @ '':''))
             (take off out @ snprintf (out_len - off) (layer @ '':''))
      else (off, out))"

definition build_lower_stack :: "supervisor_state \<Rightarrow> nat \<Rightarrow> string option" where
  "build_lower_stack st out_len =
     (let (off, out) = lower_stack_loop (rev (map ck_layer_dir (checkpoints st))) out_len 0 []
      in if out_len < off then None
         else if off = out_len then Some out
         else Some (take off out @ snprintf (out_len - off) (workspace_dir st)))"

definition lower_stack_len :: "supervisor_state \<Rightarrow> nat" where
  "lower_stack_len st =
     length (workspace_dir st) + 1 + (\<Sum>c\<leftarrow>checkpoints st. length (ck_layer_dir c) + 1)"

text \<open>
  A lower stack that overran its buffer would be undefined behaviour, not an error code; the
  branch is unreachable (\<open>build_lower_stack_exact\<close>).
\<close>

definition remount_current :: "supervisor_state \<Rightarrow> world \<Rightarrow> errcode \<times> world" where
  "remount_current st w =
     (if \<not> mem w (lower_stack_len st) then (AGENTBOX_ERR_GENERIC, w)
      else (case build_lower_stack st (lower_stack_len st) of
          None \<Rightarrow> (AGENTBOX_ERR_GENERIC, w)
        | Some stack \<Rightarrow> agentbox_cow_mount stack (live_upper st) (live_work st) (merged_dir st) w))"


section \<open>The handlers\<close>

text \<open>
  All handlers work on the supervisor's state, the file-scope variables of \<^verbatim>\<open>agentbox_cow.c\<close> and
  the world.
\<close>

type_synonym engine = "supervisor_state \<times> cow_globals \<times> world"

definition handle_checkpoint :: "string \<Rightarrow> engine \<Rightarrow> (errcode + string) \<times> engine" where
  "handle_checkpoint tag = (\<lambda>(st, gl, w).
     if AGENTBOX_MAX_CHECKPOINTS \<le> checkpoint_count st
     then (Inl AGENTBOX_ERR_CHECKPOINT_LIMIT_REACHED, (st, gl, w))
     else (let (rc, w1) = agentbox_cow_unmount (merged_dir st) w in
       if rc \<noteq> AGENTBOX_OK then (Inl rc, (st, gl, w1))
       else (let ckpt = \<lparr>
                   ck_id = snprintf AGENTBOX_ID_LEN (''ckpt-'' @ dec_of_int (next_checkpoint_num st)),
                   ck_tag = snprintf AGENTBOX_TAG_LEN tag,
                   ck_layer_dir = snprintf AGENTBOX_PATH_LEN (live_upper st),
                   ck_created_at_ms = now_ms w1\<rparr>;
                 st1 = st\<lparr>next_checkpoint_num := next_checkpoint_num st + 1,
                         checkpoints := checkpoints st @ [ckpt]\<rparr>;
                 w2 = snd (agentbox_cow_purge (live_work st1) w1);
                 (st2, w3) = new_generation_dirs st1 w2;
                 (rc2, w4) = remount_current st2 w3
             in if rc2 \<noteq> AGENTBOX_OK then (Inl rc2, (st2, gl, w4))
                else (Inr (snprintf AGENTBOX_ID_LEN (ck_id ckpt)), (st2, gl, w4)))))"

text \<open>The first checkpoint with the given id, as an index; \<open>-2\<close> if there is none.\<close>

fun find_checkpoint :: "checkpoint list \<Rightarrow> string \<Rightarrow> int \<Rightarrow> int" where
  "find_checkpoint [] target i = -2"
| "find_checkpoint (c # cs) target i = (if ck_id c = target then i else find_checkpoint cs target (i + 1))"

definition purge_all :: "string list \<Rightarrow> world \<Rightarrow> world" where
  "purge_all dirs w = fold (\<lambda>d w. snd (agentbox_cow_purge d w)) dirs w"

definition handle_rollback :: "string option \<Rightarrow> engine \<Rightarrow> errcode \<times> engine" where
  "handle_rollback target_id = (\<lambda>(st, gl, w).
     (let target_index = (case target_id of
            None \<Rightarrow> int (checkpoint_count st) - 1
          | Some t \<Rightarrow> if t = [] then int (checkpoint_count st) - 1 else find_checkpoint (checkpoints st) t 0)
      in if target_index = -2 then (AGENTBOX_ERR_CHECKPOINT_NOT_FOUND, (st, gl, w))
         else (let (rc, w1) = agentbox_cow_unmount (merged_dir st) w in
           if rc \<noteq> AGENTBOX_OK then (rc, (st, gl, w1))
           else (let w2 = snd (agentbox_cow_purge (live_upper st) w1);
                     w3 = snd (agentbox_cow_purge (live_work st) w2);
                     kept = nat (target_index + 1);
                     w4 = purge_all (rev (map ck_layer_dir (drop kept (checkpoints st)))) w3;
                     st1 = st\<lparr>checkpoints := take kept (checkpoints st)\<rparr>;
                     (st2, w5) = new_generation_dirs st1 w4;
                     (rc2, w6) = remount_current st2 w5
                 in (rc2, (st2, gl, w6))))))"

definition all_layers :: "supervisor_state \<Rightarrow> string list" where
  "all_layers st = map ck_layer_dir (checkpoints st) @ [live_upper st]"

definition handle_commit :: "engine \<Rightarrow> errcode \<times> engine" where
  "handle_commit = (\<lambda>(st, gl, w).
     (let (rc, w1) = agentbox_cow_unmount (merged_dir st) w in
      if rc \<noteq> AGENTBOX_OK then (rc, (st, gl, w1))
      else (let (rc2, gl2, w2) = agentbox_cow_commit_merge (all_layers st) (workspace_dir st) (gl, w1) in
        if rc2 \<noteq> AGENTBOX_OK then (rc2, (st, gl2, snd (remount_current st w2)))
        else (let w3 = purge_all (map ck_layer_dir (checkpoints st)) w2;
                  w4 = snd (agentbox_cow_purge (live_upper st) w3);
                  w5 = snd (agentbox_cow_purge (live_work st) w4);
                  (st2, w6) = new_generation_dirs (st\<lparr>checkpoints := []\<rparr>) w5;
                  (rc3, w7) = remount_current st2 w6
              in (rc3, (st2, gl2, w7))))))"

definition handle_diff :: "engine \<Rightarrow> (errcode + string list) \<times> engine" where
  "handle_diff = (\<lambda>(st, gl, w).
     (let (r, gl2, w2) = agentbox_cow_diff (all_layers st) (gl, w) in (r, (st, gl2, w2))))"

text \<open>
  \<^verbatim>\<open>opendir\<close> and \<^verbatim>\<open>readdir\<close>: the names the directory holds when it is opened, without the dot
  entries, which the loop skips.
\<close>

definition sys_listdir :: "string \<Rightarrow> world \<Rightarrow> string list option" where
  "sys_listdir s w = (case refuse w SysOpendir s of
     Some e \<Rightarrow> None
   | None \<Rightarrow> (case resolve w True s of
       Inl e \<Rightarrow> None
     | Inr p \<Rightarrow> (case lookup (fs w) p of
         None \<Rightarrow> None
       | Some n \<Rightarrow> if is_dir n then Some (map fst (entries n)) else None)))"

definition purge_runtime_dir_contents :: "string \<Rightarrow> world \<Rightarrow> world" where
  "purge_runtime_dir_contents rdir w = (case sys_listdir rdir w of
     None \<Rightarrow> w
   | Some ns \<Rightarrow> purge_all (map (\<lambda>n. snprintf AGENTBOX_PATH_LEN (rdir @ SLASH # n)) ns) w)"

definition handle_shutdown :: "engine \<Rightarrow> engine" where
  "handle_shutdown = (\<lambda>(st, gl, w).
     (st, gl, purge_runtime_dir_contents (runtime_dir st) (snd (agentbox_cow_unmount (merged_dir st) w))))"

text \<open>
  The start of \<^verbatim>\<open>agentbox_supervisor_main\<close>, once the namespaces are entered: the cleared state with
  its paths, the merged directory, the first generation and the first mount.
\<close>

definition init_supervisor :: "string \<Rightarrow> string \<Rightarrow> world \<Rightarrow> errcode \<times> supervisor_state \<times> world" where
  "init_supervisor workspace runtime w =
     (let st = \<lparr>workspace_dir = snprintf AGENTBOX_PATH_LEN workspace,
                runtime_dir = snprintf AGENTBOX_PATH_LEN runtime,
                merged_dir = snprintf AGENTBOX_PATH_LEN (runtime @ ''/merged''),
                live_upper = [], live_work = [], generation = 0, next_checkpoint_num = 0,
                run_counter = 0, checkpoints = []\<rparr>;
          w1 = snd (sys_mkdir (merged_dir st) 448 w);
          (st1, w2) = new_generation_dirs st w1;
          (rc, w3) = remount_current st1 w2
      in (rc, st1, w3))"

end
