(* ===== verification/Sandbox.thy ===== *)
theory Sandbox
  imports Supervisor
begin

text \<open>
  The contract of the supervisor's handlers. A sandbox is, abstractly, the workspace tree, the
  sealed layers with their checkpoint ids, and the live layer; every handler refines an operation
  on these, and what the sandboxed processes see is the overlay of them.
\<close>

section \<open>Named entries of one directory\<close>

text \<open>
  The handlers write only to entries of the runtime directory. This is the contract of a store
  of named entries; the lemmas say what a series of writes leaves.
\<close>

locale entry_store =
  fixes get :: "'s \<Rightarrow> 'n \<Rightarrow> 'v option"
    and upd :: "'n \<Rightarrow> 'v option \<Rightarrow> 's \<Rightarrow> 's"
    and ok :: "'s \<Rightarrow> bool"
  assumes get_upd: "ok s \<Longrightarrow> get (upd n v s) k = (if k = n then v else get s k)"
    and ok_upd: "ok s \<Longrightarrow> ok (upd n v s)"
begin

lemma ok_clear: "ok s \<Longrightarrow> ok (fold (\<lambda>n. upd n None) ns s)"
  by (induction ns arbitrary: s) (auto simp: ok_upd)

lemma get_clear: "ok s \<Longrightarrow> get (fold (\<lambda>n. upd n None) ns s) k = (if k \<in> set ns then None else get s k)"
  by (induction ns arbitrary: s) (auto simp: get_upd ok_upd)

end

interpretation entry: entry_store "\<lambda>t n. lookup t (R @ [n])" "\<lambda>n v t. put (R @ [n]) v t" "\<lambda>t. dir_at t R" for R
proof unfold_locales
  fix t :: node and n k :: string and v :: "node option"
  assume R: "dir_at t R"
  show "dir_at (put (R @ [n]) v t) R"
    using R by (simp add: dir_at_def lookup_put_above split: option.splits)
  show "lookup (put (R @ [n]) v t) (R @ [k]) = (if k = n then v else lookup t (R @ [k]))"
  proof (cases "k = n")
    case True
    then show ?thesis using R by (simp add: lookup_put_self)
  next
    case False
    then have "(R @ [n]) \<parallel> (R @ [k])" by (simp add: parallel_def)
    then show ?thesis using False by (simp add: lookup_put_parallel)
  qed
qed

lemma clear_elsewhere:
  "R \<parallel> W \<Longrightarrow> lookup (fold (\<lambda>n t. put (R @ [n]) None t) ns t) (W @ p) = lookup t (W @ p)"
proof (induction ns arbitrary: t)
  case (Cons n ns)
  have "(R @ [n]) \<parallel> (W @ p)" using Cons.prems by (rule parallel_append)
  then show ?case using Cons by (simp add: lookup_put_parallel)
qed simp

lemma wf_clear:
  "wf_node t \<Longrightarrow> list_all wf_name R \<Longrightarrow> list_all wf_name ns \<Longrightarrow>
     wf_node (fold (\<lambda>n t. put (R @ [n]) None t) ns t)"
proof (induction ns arbitrary: t)
  case (Cons n ns)
  have "wf_node (put (R @ [n]) None t)" using Cons.prems by (intro wf_node_put) simp_all
  then show ?case using Cons.IH Cons.prems by simp
qed simp


section \<open>The abstract sandbox\<close>

record sandbox =
  sb_base :: node
  sb_saved :: "(string \<times> node) list"
  sb_live :: node

text \<open>What the processes see.\<close>

definition sandbox_view :: "sandbox \<Rightarrow> path \<Rightarrow> content option" where
  "sandbox_view s = overlay_view (sb_live s # rev (map snd (sb_saved s)) @ [sb_base s])"

definition spec_checkpoint :: "string \<Rightarrow> node \<Rightarrow> sandbox \<Rightarrow> sandbox" where
  "spec_checkpoint i e s = s\<lparr>sb_saved := sb_saved s @ [(i, sb_live s)], sb_live := e\<rparr>"

definition spec_rollback :: "nat \<Rightarrow> node \<Rightarrow> sandbox \<Rightarrow> sandbox" where
  "spec_rollback k e s = s\<lparr>sb_saved := take k (sb_saved s), sb_live := e\<rparr>"

definition spec_commit :: "mode \<Rightarrow> node \<Rightarrow> sandbox \<Rightarrow> sandbox" where
  "spec_commit um e s = s\<lparr>sb_base := replay um (map snd (sb_saved s) @ [sb_live s]) (sb_base s),
     sb_saved := [], sb_live := e\<rparr>"

lemma overlay_view_empty_top:
  assumes "ds \<noteq> []" "is_dir (hd ds)"
  shows "overlay_view (Dir m x [] # ds) p = overlay_view ds p"
proof (cases p)
  case Nil
  then show ?thesis using assms by (cases ds) (auto, metis content_of_dir)
next
  case (Cons n q)
  then show ?thesis by simp
qed

lemma spec_checkpoint_view:
  "is_dir (sb_live s) \<Longrightarrow> sandbox_view (spec_checkpoint i (Dir m x []) s) p = sandbox_view s p"
  using overlay_view_empty_top [of "sb_live s # rev (map snd (sb_saved s)) @ [sb_base s]" m x p]
  by (simp add: sandbox_view_def spec_checkpoint_def del: overlay_view.simps)

text \<open>The trees behind a supervisor's state.\<close>

definition tree :: "world \<Rightarrow> string \<Rightarrow> node" where
  "tree w s = (case lookup (fs w) (comps s) of Some n \<Rightarrow> n | None \<Rightarrow> Dir 0 [] [])"

definition abs_sandbox :: "supervisor_state \<Rightarrow> world \<Rightarrow> sandbox" where
  "abs_sandbox st w =
     \<lparr>sb_base = tree w (workspace_dir st),
      sb_saved = map (\<lambda>c. (ck_id c, tree w (ck_layer_dir c))) (checkpoints st),
      sb_live = tree w (live_upper st)\<rparr>"

definition fresh_dir :: "world \<Rightarrow> node" where
  "fresh_dir w = Dir (448 AND NOT (umask w)) [] []"


section \<open>The invariant of a running supervisor\<close>

definition gen_name :: "string \<Rightarrow> int \<Rightarrow> string" where
  "gen_name kind g = kind @ dec_of_int g"

definition gen_path :: "supervisor_state \<Rightarrow> string \<Rightarrow> int \<Rightarrow> string" where
  "gen_path st kind g = runtime_dir st @ SLASH # gen_name kind g"

abbreviation rt :: "supervisor_state \<Rightarrow> path" where
  "rt st \<equiv> comps (runtime_dir st)"

abbreviation ws :: "supervisor_state \<Rightarrow> path" where
  "ws st \<equiv> comps (workspace_dir st)"

text \<open>Workspace and runtime directory are disjoint directories with room for the generated names.\<close>

definition places_ok :: "supervisor_state \<Rightarrow> world \<Rightarrow> bool" where
  "places_ok st w \<longleftrightarrow>
     quiet w \<and> wf_node (fs w) \<and> list_all wf_name (rt st) \<and> list_all wf_name (ws st) \<and> rt st \<parallel> ws st
     \<and> dir_at (fs w) (rt st) \<and> dir_at (fs w) (ws st) \<and> length (runtime_dir st) \<le> 4000"

text \<open>
  The sealed layers are the directories of distinct earlier generations, in order; the live ones
  are those of the current generation; the names of later generations are free.
\<close>

definition layers_ok :: "supervisor_state \<Rightarrow> world \<Rightarrow> bool" where
  "layers_ok st w \<longleftrightarrow>
     0 \<le> generation st
     \<and> live_upper st = gen_path st ''upper_'' (generation st)
     \<and> live_work st = gen_path st ''work_'' (generation st)
     \<and> dir_at (fs w) (rt st @ [gen_name ''upper_'' (generation st)])
     \<and> (\<exists>gs. map ck_layer_dir (checkpoints st) = map (gen_path st ''upper_'') gs
           \<and> sorted_wrt (<) (gs @ [generation st])
           \<and> (\<forall>g \<in> set gs. 0 \<le> g \<and> dir_at (fs w) (rt st @ [gen_name ''upper_'' g])))
     \<and> (\<forall>g > generation st. lookup (fs w) (rt st @ [gen_name ''upper_'' g]) = None
           \<and> lookup (fs w) (rt st @ [gen_name ''work_'' g]) = None)"

text \<open>The ids are \<open>ckpt-n\<close> with increasing numbers below the next one, and the table is not overfull.\<close>

definition ids_ok :: "supervisor_state \<Rightarrow> bool" where
  "ids_ok st \<longleftrightarrow>
     length (checkpoints st) \<le> AGENTBOX_MAX_CHECKPOINTS
     \<and> (\<exists>ns. map ck_id (checkpoints st) = map (gen_name ''ckpt-'') ns
           \<and> sorted_wrt (<) (ns @ [next_checkpoint_num st]) \<and> (\<forall>n \<in> set ns. 0 \<le> n))
     \<and> 0 \<le> next_checkpoint_num st"

definition sandbox_inv :: "supervisor_state \<Rightarrow> world \<Rightarrow> bool" where
  "sandbox_inv st w \<longleftrightarrow> places_ok st w \<and> layers_ok st w \<and> ids_ok st"

text \<open>The C counters are still below their last value.\<close>

definition counters_ok :: "supervisor_state \<Rightarrow> bool" where
  "counters_ok st \<longleftrightarrow> generation st < 2 ^ 31 - 1 \<and> next_checkpoint_num st < 2 ^ 31 - 1"

lemma gen_name_inj [simp]: "gen_name k g = gen_name k h \<longleftrightarrow> g = h"
  by (simp add: gen_name_def)

lemma gen_name_kinds [simp]:
  "gen_name ''upper_'' g \<noteq> gen_name ''work_'' h" "gen_name ''work_'' h \<noteq> gen_name ''upper_'' g"
  by (simp_all add: gen_name_def)

lemma wf_gen_name [simp]: "wf_name (gen_name ''upper_'' g)" "wf_name (gen_name ''work_'' g)"
  by (simp_all add: wf_name_def gen_name_def no_nul_def) (simp_all flip: no_nul_def)

lemma gen_path_comps [simp]:
  "comps (gen_path st ''upper_'' g) = rt st @ [gen_name ''upper_'' g]"
  "comps (gen_path st ''work_'' g) = rt st @ [gen_name ''work_'' g]"
  by (simp_all add: gen_path_def comps_join comps_name)

lemma gen_path_fits:
  assumes "length (runtime_dir st) \<le> 4000" "0 \<le> g" "g < 2 ^ 31"
  shows "length (gen_path st ''upper_'' g) < 4096" "length (gen_path st ''work_'' g) < 4096"
  using assms length_dec_of_int [OF assms(2,3)] by (simp_all add: gen_path_def gen_name_def)

lemma gen_path_names:
  assumes "places_ok st w"
  shows "names w (gen_path st ''upper_'' g) (rt st @ [gen_name ''upper_'' g])"
    "names w (gen_path st ''work_'' g) (rt st @ [gen_name ''work_'' g])"
  using assms wf_gen_name [of g] by (auto simp: names_def places_ok_def wf_name_plain_all wf_name_def)


section \<open>What the calls of a handler do to the tree\<close>

text \<open>The calls change the tree and the mount table, nothing else of the world.\<close>

definition tree_only :: "world \<Rightarrow> world \<Rightarrow> bool" where
  "tree_only w w' \<longleftrightarrow> w' = w\<lparr>fs := fs w', mtab := mtab w'\<rparr>"

lemma tree_only_trans: "tree_only w w' \<Longrightarrow> tree_only w' w'' \<Longrightarrow> tree_only w w''"
  unfolding tree_only_def by (cases w, cases w', cases w'') simp

lemma tree_only_umask: "tree_only w w' \<Longrightarrow> umask w' = umask w"
  unfolding tree_only_def by (cases w, cases w') simp

lemma tree_only_update [simp]: "tree_only w (w\<lparr>fs := t\<rparr>)" "tree_only w (w\<lparr>mtab := m\<rparr>)"
  by (simp_all add: tree_only_def)

lemma unmount_world: "agentbox_cow_unmount m w = (rc, w') \<Longrightarrow> w' = w\<lparr>mtab := mtab w'\<rparr>"
  by (auto simp: agentbox_cow_unmount_def sys_umount2_def split: option.splits if_splits)

lemma mount_world: "agentbox_cow_mount l u k m w = (rc, w') \<Longrightarrow> w' = w\<lparr>mtab := mtab w'\<rparr>"
  by (auto simp: agentbox_cow_mount_def sys_mount_def Let_def split: option.splits if_splits)

lemma remount_world: "remount_current st w = (rc, w') \<Longrightarrow> w' = w\<lparr>mtab := mtab w'\<rparr>"
  by (auto simp: remount_current_def split: option.splits if_splits dest: mount_world)

lemma unmount_quiet: "quiet w \<Longrightarrow> fst (agentbox_cow_unmount m w) = AGENTBOX_OK"
  by (simp add: agentbox_cow_unmount_def sys_umount2_def split: if_splits)

lemma mtab_same [simp]:
  "quiet (w\<lparr>mtab := m\<rparr>) = quiet w" "places_ok st (w\<lparr>mtab := m\<rparr>) = places_ok st w"
  "layers_ok st (w\<lparr>mtab := m\<rparr>) = layers_ok st w" "tree (w\<lparr>mtab := m\<rparr>) s = tree w s"
  "abs_sandbox st (w\<lparr>mtab := m\<rparr>) = abs_sandbox st w" "fresh_dir (w\<lparr>mtab := m\<rparr>) = fresh_dir w"
  by (simp_all add: quiet_def places_ok_def layers_ok_def tree_def abs_sandbox_def fresh_dir_def)

lemma rt_ws_parallel: "places_ok st w \<Longrightarrow> (rt st @ [n]) \<parallel> ws st"
  using parallel_append [of "rt st" "ws st" "[n]" "[]"] by (simp add: places_ok_def)

lemma places_ok_edit:
  assumes "places_ok st w" "wf_name n" "\<And>k. v = Some k \<Longrightarrow> wf_node k"
  shows "places_ok st (w\<lparr>fs := put (rt st @ [n]) v (fs w)\<rparr>)"
proof -
  have "lookup (put (rt st @ [n]) v (fs w)) (ws st) = lookup (fs w) (ws st)"
    using assms(1) by (intro lookup_put_parallel rt_ws_parallel)
  moreover have "wf_node (put (rt st @ [n]) v (fs w))"
    using assms by (intro wf_node_put) (auto simp: places_ok_def)
  ultimately show ?thesis
    using assms(1) entry.ok_upd [of "fs w" "rt st" n v] by (simp add: places_ok_def dir_at_def)
qed

lemma tree_ws_edit:
  assumes "places_ok st w"
  shows "tree (w\<lparr>fs := put (rt st @ [n]) v (fs w)\<rparr>) (workspace_dir st) = tree w (workspace_dir st)"
proof -
  have "lookup (put (rt st @ [n]) v (fs w)) (ws st) = lookup (fs w) (ws st)"
    using assms by (intro lookup_put_parallel rt_ws_parallel)
  then show ?thesis by (simp add: tree_def)
qed

lemma purge_entries_of_rt:
  assumes "places_ok st w" "list_all wf_name ns"
  shows "purge_all (map (\<lambda>n. runtime_dir st @ SLASH # n) ns) w
     = w\<lparr>fs := fold (\<lambda>n t. put (rt st @ [n]) None t) ns (fs w)\<rparr>"
  using assms
proof (induction ns arbitrary: w)
  case (Cons n ns)
  let ?w1 = "w\<lparr>fs := put (rt st @ [n]) None (fs w)\<rparr>"
  have "names w (runtime_dir st @ SLASH # n) (rt st @ [n])"
    using Cons.prems by (auto simp: names_def places_ok_def wf_name_plain_all wf_name_def comps_join comps_name)
  then have one: "agentbox_cow_purge (runtime_dir st @ SLASH # n) w = (AGENTBOX_OK, ?w1)"
    using Cons.prems by (intro cow_purge_removes) (auto simp: places_ok_def)
  have "places_ok st ?w1" using Cons.prems by (intro places_ok_edit) simp_all
  then show ?case using Cons.IH [of ?w1] Cons.prems one by (simp add: purge_all_def)
qed (simp add: purge_all_def)

text \<open>The generations \<open>gs\<close> are in place, and what comes after the current one is free.\<close>

definition gens_ok :: "supervisor_state \<Rightarrow> int list \<Rightarrow> world \<Rightarrow> bool" where
  "gens_ok st gs w \<longleftrightarrow>
     0 \<le> generation st \<and> sorted_wrt (<) gs
     \<and> (\<forall>g \<in> set gs. 0 \<le> g \<and> g \<le> generation st \<and> dir_at (fs w) (rt st @ [gen_name ''upper_'' g]))
     \<and> (\<forall>g > generation st. lookup (fs w) (rt st @ [gen_name ''upper_'' g]) = None
           \<and> lookup (fs w) (rt st @ [gen_name ''work_'' g]) = None)"

definition clear_rt :: "supervisor_state \<Rightarrow> string list \<Rightarrow> world \<Rightarrow> world" where
  "clear_rt st ns w = w\<lparr>fs := fold (\<lambda>n t. put (rt st @ [n]) None t) ns (fs w)\<rparr>"

lemma clear_rt_ok:
  assumes "places_ok st w" "list_all wf_name ns"
  shows "places_ok st (clear_rt st ns w)" "tree (clear_rt st ns w) (workspace_dir st) = tree w (workspace_dir st)"
    "\<And>k. lookup (fs (clear_rt st ns w)) (rt st @ [k]) = (if k \<in> set ns then None else lookup (fs w) (rt st @ [k]))"
proof -
  have p: "places_ok st w \<Longrightarrow> list_all wf_name ns \<Longrightarrow> places_ok st (clear_rt st ns w)" for w
  proof (induction ns arbitrary: w)
    case (Cons n ns)
    have "places_ok st (w\<lparr>fs := put (rt st @ [n]) None (fs w)\<rparr>)"
      using Cons.prems by (intro places_ok_edit) simp_all
    then show ?case using Cons.IH [of "w\<lparr>fs := put (rt st @ [n]) None (fs w)\<rparr>"] Cons.prems
      by (simp add: clear_rt_def)
  qed (simp add: clear_rt_def)
  then show "places_ok st (clear_rt st ns w)" using assms .
  have "rt st \<parallel> ws st" using assms(1) by (simp add: places_ok_def)
  from clear_elsewhere [OF this, of ns "fs w" "[]"]
  show "tree (clear_rt st ns w) (workspace_dir st) = tree w (workspace_dir st)"
    by (simp add: tree_def clear_rt_def)
  show "lookup (fs (clear_rt st ns w)) (rt st @ [k]) = (if k \<in> set ns then None else lookup (fs w) (rt st @ [k]))" for k
    using assms(1) entry.get_clear [of "fs w" "rt st" ns k] by (simp add: clear_rt_def places_ok_def)
qed

lemma clear_rt_gens:
  assumes "places_ok st w" "list_all wf_name ns" "gens_ok st gs w" "\<forall>g \<in> set gs. gen_name ''upper_'' g \<notin> set ns"
  shows "gens_ok st gs (clear_rt st ns w)"
    "\<forall>g \<in> set gs. tree (clear_rt st ns w) (gen_path st ''upper_'' g) = tree w (gen_path st ''upper_'' g)"
  using assms clear_rt_ok(3) [OF assms(1,2)] by (auto simp: gens_ok_def dir_at_def tree_def)


text \<open>Making the next generation.\<close>

lemma mkdir_free:
  assumes "places_ok st w" "wf_name n" "lookup (fs w) (rt st @ [n]) = None"
  shows "sys_mkdir (runtime_dir st @ SLASH # n) 448 w = (None, w\<lparr>fs := put (rt st @ [n]) (Some (fresh_dir w)) (fs w)\<rparr>)"
proof -
  have "names w (runtime_dir st @ SLASH # n) (rt st @ [n])"
    using assms by (auto simp: names_def places_ok_def wf_name_plain_all wf_name_def comps_join comps_name)
  moreover have "(448 AND 1023 AND NOT (umask w) :: 32 word) = 448 AND NOT (umask w)"
    by (simp flip: and.assoc)
  ultimately show ?thesis
    using assms by (simp add: sys_mkdir_def quiet_entry_call places_ok_def fresh_dir_def)
qed

definition next_gen_tree :: "supervisor_state \<Rightarrow> world \<Rightarrow> node" where
  "next_gen_tree st w =
     put (rt st @ [gen_name ''work_'' (generation st + 1)]) (Some (fresh_dir w))
       (put (rt st @ [gen_name ''upper_'' (generation st + 1)]) (Some (fresh_dir w)) (fs w))"

definition next_gen_state :: "supervisor_state \<Rightarrow> supervisor_state" where
  "next_gen_state st = st\<lparr>generation := generation st + 1,
     live_upper := gen_path st ''upper_'' (generation st + 1),
     live_work := gen_path st ''work_'' (generation st + 1)\<rparr>"

lemma next_gen_state_simps [simp]:
  "generation (next_gen_state st) = generation st + 1"
  "live_upper (next_gen_state st) = gen_path st ''upper_'' (generation st + 1)"
  "live_work (next_gen_state st) = gen_path st ''work_'' (generation st + 1)"
  "checkpoints (next_gen_state st) = checkpoints st" "runtime_dir (next_gen_state st) = runtime_dir st"
  "workspace_dir (next_gen_state st) = workspace_dir st" "gen_path (next_gen_state st) = gen_path st"
  "next_checkpoint_num (next_gen_state st) = next_checkpoint_num st"
  by (simp_all add: next_gen_state_def gen_path_def fun_eq_iff)

lemma wf_fresh [simp]: "wf_node (fresh_dir w)" "is_dir (fresh_dir w)" "fresh_dir (w\<lparr>fs := t\<rparr>) = fresh_dir w"
  by (simp_all add: fresh_dir_def)

lemma next_gen_lookup:
  assumes "places_ok st w"
  shows "lookup (next_gen_tree st w) (rt st @ [n]) =
    (if n = gen_name ''work_'' (generation st + 1) \<or> n = gen_name ''upper_'' (generation st + 1)
     then Some (fresh_dir w) else lookup (fs w) (rt st @ [n]))"
proof -
  have R: "dir_at (fs w) (rt st)" using assms by (simp add: places_ok_def)
  show ?thesis
    unfolding next_gen_tree_def entry.get_upd [OF entry.ok_upd [OF R]] entry.get_upd [OF R] by simp
qed

lemma next_gen_places: "places_ok st w \<Longrightarrow> places_ok st (w\<lparr>fs := next_gen_tree st w\<rparr>)"
proof -
  assume p: "places_ok st w"
  let ?w1 = "w\<lparr>fs := put (rt st @ [gen_name ''upper_'' (generation st + 1)]) (Some (fresh_dir w)) (fs w)\<rparr>"
  have "places_ok st ?w1" using p by (rule places_ok_edit) auto
  from places_ok_edit [OF this, of "gen_name ''work_'' (generation st + 1)" "Some (fresh_dir w)"]
  show ?thesis by (simp add: next_gen_tree_def)
qed

lemma next_gen_ws:
  "places_ok st w \<Longrightarrow> tree (w\<lparr>fs := next_gen_tree st w\<rparr>) (workspace_dir st) = tree w (workspace_dir st)"
proof -
  assume p: "places_ok st w"
  let ?w1 = "w\<lparr>fs := put (rt st @ [gen_name ''upper_'' (generation st + 1)]) (Some (fresh_dir w)) (fs w)\<rparr>"
  have "places_ok st ?w1" using p by (rule places_ok_edit) auto
  from tree_ws_edit [OF this, of "gen_name ''work_'' (generation st + 1)" "Some (fresh_dir w)"]
    tree_ws_edit [OF p] show ?thesis by (simp add: next_gen_tree_def)
qed

lemma new_generation_runs:
  assumes "places_ok st w" "gens_ok st gs w" "generation st < 2 ^ 31 - 1"
  shows "new_generation_dirs st w = (next_gen_state st, w\<lparr>fs := next_gen_tree st w\<rparr>)"
proof -
  let ?g = "generation st + 1"
  let ?u = "gen_name ''upper_'' ?g" and ?k = "gen_name ''work_'' ?g"
  let ?w1 = "w\<lparr>fs := put (rt st @ [?u]) (Some (fresh_dir w)) (fs w)\<rparr>"
  have g: "0 \<le> ?g" "?g < 2 ^ 31" using assms(2,3) by (simp_all add: gens_ok_def)
  have rtd: "dir_at (fs w) (rt st)" using assms(1) by (simp add: places_ok_def)
  have p1: "places_ok st ?w1" using assms(1) by (rule places_ok_edit) auto
  have free: "lookup (fs w) (rt st @ [?u]) = None" "lookup (fs w) (rt st @ [?k]) = None"
    using assms(2) by (simp_all add: gens_ok_def)
  have fit: "length (gen_path st ''upper_'' ?g) < 4096" "length (gen_path st ''work_'' ?g) < 4096"
    using gen_path_fits [OF _ g] assms(1) by (simp_all add: places_ok_def)
  have up: "snprintf AGENTBOX_PATH_LEN (runtime_dir st @ ''/upper_'' @ dec_of_int ?g) = gen_path st ''upper_'' ?g"
    and wk: "snprintf AGENTBOX_PATH_LEN (runtime_dir st @ ''/work_'' @ dec_of_int ?g) = gen_path st ''work_'' ?g"
    using fit by (simp_all add: gen_path_def gen_name_def AGENTBOX_PATH_LEN_def)
  have m1: "snd (sys_mkdir (gen_path st ''upper_'' ?g) 448 w) = ?w1"
    unfolding gen_path_def using mkdir_free [OF assms(1) _ free(1)] by simp
  have "lookup (fs ?w1) (rt st @ [?k]) = None"
    using free(2) entry.get_upd [OF rtd, of ?u "Some (fresh_dir w)" ?k] by simp
  then have m2: "snd (sys_mkdir (gen_path st ''work_'' ?g) 448 ?w1) = w\<lparr>fs := next_gen_tree st w\<rparr>"
    unfolding gen_path_def using mkdir_free [OF p1, of ?k] by (simp add: next_gen_tree_def)
  show ?thesis
    unfolding new_generation_dirs_def Let_def up wk m1 m2 next_gen_state_def ..
qed

lemma next_gen_layers:
  assumes "places_ok st w" "gens_ok st gs w" "map ck_layer_dir (checkpoints st) = map (gen_path st ''upper_'') gs"
  shows "layers_ok (next_gen_state st) (w\<lparr>fs := next_gen_tree st w\<rparr>)"
proof -
  have dirs: "dir_at (next_gen_tree st w) (rt st @ [gen_name ''upper_'' h])"
    if "h \<in> set gs \<or> h = generation st + 1" for h
    using assms(2) that next_gen_lookup [OF assms(1), of "gen_name ''upper_'' h"]
    by (auto simp: gens_ok_def dir_at_def)
  have free: "lookup (next_gen_tree st w) (rt st @ [gen_name ''upper_'' h]) = None
      \<and> lookup (next_gen_tree st w) (rt st @ [gen_name ''work_'' h]) = None" if "generation st + 1 < h" for h
    using assms(2) that next_gen_lookup [OF assms(1)] by (simp add: gens_ok_def)
  have gs: "sorted_wrt (<) (gs @ [generation st + 1])" "\<forall>g \<in> set gs. 0 \<le> g" "0 \<le> generation st + 1"
    using assms(2) by (auto simp: gens_ok_def sorted_wrt_append)
  show ?thesis
    unfolding layers_ok_def next_gen_state_simps
    using dirs free gs assms(3) by (intro conjI exI [of _ gs] allI impI) simp_all
qed

lemma next_gen_abs:
  assumes "places_ok st w" "gens_ok st gs w" "map ck_layer_dir (checkpoints st) = map (gen_path st ''upper_'') gs"
  shows "abs_sandbox (next_gen_state st) (w\<lparr>fs := next_gen_tree st w\<rparr>) =
    \<lparr>sb_base = tree w (workspace_dir st),
     sb_saved = map (\<lambda>c. (ck_id c, tree w (ck_layer_dir c))) (checkpoints st), sb_live = fresh_dir w\<rparr>"
proof -
  let ?w = "w\<lparr>fs := next_gen_tree st w\<rparr>"
  have same: "tree ?w (gen_path st ''upper_'' h) = tree w (gen_path st ''upper_'' h)" if "h \<in> set gs" for h
    using that assms(2) next_gen_lookup [OF assms(1), of "gen_name ''upper_'' h"]
    by (auto simp: gens_ok_def tree_def)
  have "tree ?w (ck_layer_dir c) = tree w (ck_layer_dir c)" if "c \<in> set (checkpoints st)" for c
  proof -
    have "ck_layer_dir c \<in> set (map (gen_path st ''upper_'') gs)"
      using that assms(3) by (metis image_eqI list.set_map)
    then show ?thesis using same by auto
  qed
  moreover have "tree ?w (gen_path st ''upper_'' (generation st + 1)) = fresh_dir w"
    using next_gen_lookup [OF assms(1)] by (simp add: tree_def)
  ultimately show ?thesis
    using next_gen_ws [OF assms(1)] by (simp add: abs_sandbox_def)
qed


section \<open>The handlers refine the abstract operations\<close>

lemma state_same [simp]:
  "gen_path (st\<lparr>checkpoints := cs\<rparr>) = gen_path st"
  "gen_path (st\<lparr>next_checkpoint_num := n\<rparr>) = gen_path st"
  "gens_ok (st\<lparr>checkpoints := cs\<rparr>) = gens_ok st"
  "gens_ok (st\<lparr>next_checkpoint_num := n\<rparr>) = gens_ok st"
  "places_ok (st\<lparr>checkpoints := cs\<rparr>) = places_ok st"
  "places_ok (st\<lparr>next_checkpoint_num := n\<rparr>) = places_ok st"
  "clear_rt (st\<lparr>checkpoints := cs\<rparr>) = clear_rt st"
  "clear_rt (st\<lparr>next_checkpoint_num := n\<rparr>) = clear_rt st"
  "places_ok (next_gen_state st) = places_ok st"
  by (simp_all add: gen_path_def gens_ok_def places_ok_def clear_rt_def fun_eq_iff)

lemma clear_rt_world [simp]:
  "umask (clear_rt st ns w) = umask w" "fresh_dir (clear_rt st ns w) = fresh_dir w"
  "quiet (clear_rt st ns w) = quiet w"
  by (simp_all add: clear_rt_def fresh_dir_def)

lemma layers_okE:
  assumes "layers_ok st w"
  obtains gs where "map ck_layer_dir (checkpoints st) = map (gen_path st ''upper_'') gs"
    "sorted_wrt (<) (gs @ [generation st])" "gens_ok st (gs @ [generation st]) w"
    "live_upper st = gen_path st ''upper_'' (generation st)"
    "live_work st = gen_path st ''work_'' (generation st)"
proof -
  from assms obtain gs where gs: "map ck_layer_dir (checkpoints st) = map (gen_path st ''upper_'') gs"
    "sorted_wrt (<) (gs @ [generation st])"
    "\<forall>g \<in> set gs. 0 \<le> g \<and> dir_at (fs w) (rt st @ [gen_name ''upper_'' g])"
    unfolding layers_ok_def by blast
  moreover have "gens_ok st (gs @ [generation st]) w"
    using assms gs unfolding gens_ok_def layers_ok_def by (auto simp: sorted_wrt_append)
  ultimately show thesis using assms that by (simp add: layers_ok_def)
qed

lemma gens_ok_sub: "gens_ok st gs w \<Longrightarrow> sorted_wrt (<) hs \<Longrightarrow> set hs \<subseteq> set gs \<Longrightarrow> gens_ok st hs w"
  by (auto simp: gens_ok_def)

text \<open>What all handlers end with: the next generation is made and mounted.\<close>

lemma finish_generation:
  assumes "places_ok st w" "gens_ok st gs w" "map ck_layer_dir (checkpoints st) = map (gen_path st ''upper_'') gs"
    and "generation st < 2 ^ 31 - 1" "ids_ok st"
    and "new_generation_dirs st w = (st2, w1)" "remount_current st2 w1 = (rc, w2)"
  shows "st2 = next_gen_state st" "sandbox_inv st2 w2" "tree_only w w2"
    "abs_sandbox st2 w2 = \<lparr>sb_base = tree w (workspace_dir st),
       sb_saved = map (\<lambda>c. (ck_id c, tree w (ck_layer_dir c))) (checkpoints st), sb_live = fresh_dir w\<rparr>"
proof -
  have n: "st2 = next_gen_state st" "w1 = w\<lparr>fs := next_gen_tree st w\<rparr>"
    using new_generation_runs [OF assms(1,2,4)] assms(6) by simp_all
  have w2: "w2 = w1\<lparr>mtab := mtab w2\<rparr>" using assms(7) by (rule remount_world)
  show "st2 = next_gen_state st" by (rule n)
  have "places_ok st2 w1" using next_gen_places [OF assms(1)] by (simp add: n)
  moreover have "layers_ok st2 w1" using next_gen_layers [OF assms(1-3)] by (simp add: n)
  moreover have "ids_ok st2" using assms(5) by (simp add: n ids_ok_def)
  ultimately show "sandbox_inv st2 w2" by (subst w2) (simp add: sandbox_inv_def)
  have "tree_only w1 w2" using w2 tree_only_update(2) by metis
  then show "tree_only w w2" by (rule tree_only_trans [rotated]) (simp add: n)
  show "abs_sandbox st2 w2 = \<lparr>sb_base = tree w (workspace_dir st),
       sb_saved = map (\<lambda>c. (ck_id c, tree w (ck_layer_dir c))) (checkpoints st), sb_live = fresh_dir w\<rparr>"
    by (subst w2) (simp only: mtab_same n next_gen_abs [OF assms(1-3)])
qed

lemma purge_one:
  "places_ok st w \<Longrightarrow> snd (agentbox_cow_purge (gen_path st ''upper_'' g) w) = clear_rt st [gen_name ''upper_'' g] w"
  "places_ok st w \<Longrightarrow> snd (agentbox_cow_purge (gen_path st ''work_'' g) w) = clear_rt st [gen_name ''work_'' g] w"
  using purge_entries_of_rt [of st w "[gen_name ''upper_'' g]"] purge_entries_of_rt [of st w "[gen_name ''work_'' g]"]
  by (simp_all add: purge_all_def gen_path_def clear_rt_def)

definition next_id :: "supervisor_state \<Rightarrow> string" where
  "next_id st = gen_name ''ckpt-'' (next_checkpoint_num st)"

lemma ids_ok_add:
  assumes "ids_ok st" "length (checkpoints st) < AGENTBOX_MAX_CHECKPOINTS" "ck_id c = next_id st"
  shows "ids_ok (st\<lparr>next_checkpoint_num := next_checkpoint_num st + 1, checkpoints := checkpoints st @ [c]\<rparr>)"
proof -
  obtain ns where "map ck_id (checkpoints st) = map (gen_name ''ckpt-'') ns"
    "sorted_wrt (<) (ns @ [next_checkpoint_num st])" "\<forall>n \<in> set ns. 0 \<le> n" "0 \<le> next_checkpoint_num st"
    using assms(1) by (auto simp: ids_ok_def)
  then show ?thesis
    using assms(2,3) unfolding ids_ok_def
    by (intro conjI exI [of _ "ns @ [next_checkpoint_num st]"]) (auto simp: next_id_def sorted_wrt_append)
qed

lemma ids_ok_take: "ids_ok st \<Longrightarrow> ids_ok (st\<lparr>checkpoints := take k (checkpoints st)\<rparr>)"
proof -
  assume a: "ids_ok st"
  then obtain ns where "map ck_id (checkpoints st) = map (gen_name ''ckpt-'') ns"
    "sorted_wrt (<) (ns @ [next_checkpoint_num st])" "\<forall>n \<in> set ns. 0 \<le> n"
    by (auto simp: ids_ok_def)
  then show ?thesis
    using a unfolding ids_ok_def
    by (intro conjI exI [of _ "take k ns"])
      (auto simp: take_map [symmetric] sorted_wrt_append sorted_wrt_take dest: in_set_takeD)
qed


lemma unmount_ok:
  assumes "places_ok st w"
  obtains m where "agentbox_cow_unmount s w = (AGENTBOX_OK, w\<lparr>mtab := m\<rparr>)"
proof -
  obtain rc w1 where un: "agentbox_cow_unmount s w = (rc, w1)" by fastforce
  moreover have "rc = AGENTBOX_OK" using unmount_quiet [of w s] assms un by (simp add: places_ok_def)
  ultimately show thesis using that unmount_world [OF un] by metis
qed

lemma mtab_same_gens [simp]:
  "gens_ok st gs (w\<lparr>mtab := m\<rparr>) = gens_ok st gs w"
  by (simp add: gens_ok_def)

text \<open>Clearing entries that are not kept, then the next generation: the end of every handler.\<close>

lemma clear_and_finish:
  assumes "places_ok st w" "gens_ok st gs w" "map ck_layer_dir (checkpoints st) = map (gen_path st ''upper_'') gs"
    and "generation st < 2 ^ 31 - 1" "ids_ok st"
    and "list_all wf_name ns" "\<forall>g \<in> set gs. gen_name ''upper_'' g \<notin> set ns"
  obtains rc w1 w2 where "new_generation_dirs st (clear_rt st ns w) = (next_gen_state st, w1)"
    "remount_current (next_gen_state st) w1 = (rc, w2)" "sandbox_inv (next_gen_state st) w2" "tree_only w w2"
    "abs_sandbox (next_gen_state st) w2 = \<lparr>sb_base = tree w (workspace_dir st),
       sb_saved = map (\<lambda>c. (ck_id c, tree w (ck_layer_dir c))) (checkpoints st), sb_live = fresh_dir w\<rparr>"
proof -
  let ?w = "clear_rt st ns w"
  obtain st2 w1 where ng: "new_generation_dirs st ?w = (st2, w1)" by fastforce
  obtain rc w2 where rm: "remount_current st2 w1 = (rc, w2)" by fastforce
  note p = clear_rt_ok [OF assms(1,6)] and g = clear_rt_gens [OF assms(1,6,2,7)]
  note fin = finish_generation [OF p(1) g(1) assms(3-5) ng rm]
  have "tree ?w (ck_layer_dir c) = tree w (ck_layer_dir c)" if "c \<in> set (checkpoints st)" for c
  proof -
    have "ck_layer_dir c \<in> set (map (gen_path st ''upper_'') gs)"
      using that assms(3) by (metis image_eqI list.set_map)
    then show ?thesis using g(2) by auto
  qed
  then have "map (\<lambda>c. (ck_id c, tree ?w (ck_layer_dir c))) (checkpoints st)
      = map (\<lambda>c. (ck_id c, tree w (ck_layer_dir c))) (checkpoints st)" by simp
  moreover have "tree_only w w2" by (rule tree_only_trans [OF _ fin(3)]) (simp add: clear_rt_def)
  ultimately show thesis using that ng rm fin p(2) by simp
qed


text \<open>Checkpoint.\<close>

definition made_checkpoint :: "string \<Rightarrow> supervisor_state \<Rightarrow> world \<Rightarrow> checkpoint" where
  "made_checkpoint tag st w = \<lparr>ck_id = next_id st, ck_tag = snprintf AGENTBOX_TAG_LEN tag,
     ck_layer_dir = live_upper st, ck_created_at_ms = now_ms w\<rparr>"

definition add_checkpoint :: "string \<Rightarrow> supervisor_state \<Rightarrow> world \<Rightarrow> supervisor_state" where
  "add_checkpoint tag st w = st\<lparr>next_checkpoint_num := next_checkpoint_num st + 1,
     checkpoints := checkpoints st @ [made_checkpoint tag st w]\<rparr>"

lemma add_checkpoint_simps [simp]:
  "places_ok (add_checkpoint tag st w) = places_ok st" "gens_ok (add_checkpoint tag st w) = gens_ok st"
  "clear_rt (add_checkpoint tag st w) = clear_rt st" "gen_path (add_checkpoint tag st w) = gen_path st"
  "generation (add_checkpoint tag st w) = generation st" "workspace_dir (add_checkpoint tag st w) = workspace_dir st"
  "live_work (add_checkpoint tag st w) = live_work st"
  "checkpoints (add_checkpoint tag st w) = checkpoints st @ [made_checkpoint tag st w]"
  "next_checkpoint_num (add_checkpoint tag st w) = next_checkpoint_num st + 1"
  by (simp_all add: add_checkpoint_def)

text \<open>The texts of a checkpoint fit their buffers.\<close>

lemma checkpoint_texts:
  assumes "sandbox_inv st w" "counters_ok st"
  shows "snprintf AGENTBOX_PATH_LEN (live_upper st) = live_upper st"
    "snprintf AGENTBOX_ID_LEN (''ckpt-'' @ dec_of_int (next_checkpoint_num st)) = next_id st"
    "snprintf AGENTBOX_ID_LEN (next_id st) = next_id st"
proof -
  have g: "0 \<le> generation st" "generation st < 2 ^ 31" "0 \<le> next_checkpoint_num st"
    "next_checkpoint_num st < 2 ^ 31" "live_upper st = gen_path st ''upper_'' (generation st)"
    using assms by (simp_all add: counters_ok_def sandbox_inv_def layers_ok_def ids_ok_def)
  then show "snprintf AGENTBOX_PATH_LEN (live_upper st) = live_upper st"
    using gen_path_fits(1) [of st "generation st"] assms(1)
    by (simp add: sandbox_inv_def places_ok_def AGENTBOX_PATH_LEN_def)
  have "length (next_id st) < 64" using length_dec_of_int [OF g(3,4)] by (simp add: next_id_def gen_name_def)
  then show "snprintf AGENTBOX_ID_LEN (''ckpt-'' @ dec_of_int (next_checkpoint_num st)) = next_id st"
    "snprintf AGENTBOX_ID_LEN (next_id st) = next_id st"
    by (simp_all add: next_id_def gen_name_def AGENTBOX_ID_LEN_def)
qed

lemma checkpoint_refines:
  assumes "sandbox_inv st w" "counters_ok st" "checkpoint_count st < AGENTBOX_MAX_CHECKPOINTS"
  obtains rc st' w' where
    "handle_checkpoint tag (st, gl, w) = (if rc = AGENTBOX_OK then Inr (next_id st) else Inl rc, (st', gl, w'))"
    "sandbox_inv st' w'" "tree_only w w'" "next_checkpoint_num st' = next_checkpoint_num st + 1"
    "abs_sandbox st' w' = spec_checkpoint (next_id st) (fresh_dir w) (abs_sandbox st w)"
proof -
  have p: "places_ok st w" "layers_ok st w" "ids_ok st" using assms(1) by (simp_all add: sandbox_inv_def)
  obtain gs where gs: "map ck_layer_dir (checkpoints st) = map (gen_path st ''upper_'') gs"
    "sorted_wrt (<) (gs @ [generation st])" "gens_ok st (gs @ [generation st]) w"
    "live_upper st = gen_path st ''upper_'' (generation st)"
    "live_work st = gen_path st ''work_'' (generation st)"
    by (rule layers_okE [OF p(2)])
  obtain m where un: "agentbox_cow_unmount (merged_dir st) w = (AGENTBOX_OK, w\<lparr>mtab := m\<rparr>)"
    by (rule unmount_ok [OF p(1)])
  let ?w1 = "w\<lparr>mtab := m\<rparr>" and ?ns = "[gen_name ''work_'' (generation st)]"
  let ?st1 = "add_checkpoint tag st ?w1"
  have pw: "snd (agentbox_cow_purge (live_work st) ?w1) = clear_rt st ?ns ?w1"
    unfolding gs(5) using p(1) by (intro purge_one(2)) simp
  have "ids_ok ?st1"
    using ids_ok_add [OF p(3)] assms(3) by (simp add: add_checkpoint_def made_checkpoint_def checkpoint_count_def)
  then obtain rc w1 w2 where fin: "new_generation_dirs ?st1 (clear_rt ?st1 ?ns ?w1) = (next_gen_state ?st1, w1)"
    "remount_current (next_gen_state ?st1) w1 = (rc, w2)" "sandbox_inv (next_gen_state ?st1) w2" "tree_only ?w1 w2"
    "abs_sandbox (next_gen_state ?st1) w2 = \<lparr>sb_base = tree ?w1 (workspace_dir ?st1),
       sb_saved = map (\<lambda>c. (ck_id c, tree ?w1 (ck_layer_dir c))) (checkpoints ?st1), sb_live = fresh_dir ?w1\<rparr>"
    using p(1) gs assms(2)
    by (rule_tac clear_and_finish [of ?st1 ?w1 "gs @ [generation st]" ?ns])
      (simp_all add: made_checkpoint_def counters_ok_def)
  have "handle_checkpoint tag (st, gl, w) = (if rc = AGENTBOX_OK then Inr (next_id st) else Inl rc, (next_gen_state ?st1, gl, w2))"
    using assms(3) pw fin(1,2) un checkpoint_texts [OF assms(1,2)]
    by (simp add: handle_checkpoint_def Let_def add_checkpoint_def made_checkpoint_def)
  moreover have "abs_sandbox (next_gen_state ?st1) w2 = spec_checkpoint (next_id st) (fresh_dir w) (abs_sandbox st w)"
    unfolding fin(5) by (simp add: spec_checkpoint_def abs_sandbox_def made_checkpoint_def)
  ultimately show thesis using that fin(3) tree_only_trans [OF _ fin(4)] by simp
qed


text \<open>Rollback: the index that a request selects, and what it keeps.\<close>

definition rollback_index :: "string option \<Rightarrow> supervisor_state \<Rightarrow> int" where
  "rollback_index target st = (case target of
     None \<Rightarrow> int (checkpoint_count st) - 1
   | Some t \<Rightarrow> if t = [] then int (checkpoint_count st) - 1 else find_checkpoint (checkpoints st) t 0)"

lemma find_checkpoint_range:
  "0 \<le> i \<Longrightarrow> find_checkpoint cs t i = -2 \<or> i \<le> find_checkpoint cs t i \<and> find_checkpoint cs t i < i + int (length cs)"
proof (induction cs arbitrary: i)
  case (Cons c cs)
  have "0 \<le> i + 1" using Cons.prems by simp
  from Cons.IH [OF this] show ?case by auto
qed simp

lemma rollback_kept:
  "rollback_index target st \<noteq> -2 \<Longrightarrow> nat (rollback_index target st + 1) \<le> checkpoint_count st"
  using find_checkpoint_range [of 0 "checkpoints st" "the target"]
  by (auto simp: rollback_index_def checkpoint_count_def split: option.splits if_splits)

text \<open>The purges of a rollback and of a commit, as one clearing.\<close>

lemma purge_all_append: "purge_all (xs @ ys) w = purge_all ys (purge_all xs w)"
  by (simp add: purge_all_def)

lemma purge_all_gens:
  assumes "places_ok st w"
  shows "purge_all (map (gen_path st ''upper_'') hs) w = clear_rt st (map (gen_name ''upper_'') hs) w"
proof -
  have eq: "map (gen_path st ''upper_'') hs = map (\<lambda>n. runtime_dir st @ SLASH # n) (map (gen_name ''upper_'') hs)"
    by (simp add: gen_path_def)
  show ?thesis
    unfolding eq clear_rt_def using assms by (rule purge_entries_of_rt) (simp add: list_all_iff)
qed

lemma clear_rt_append: "clear_rt st ms (clear_rt st ns w) = clear_rt st (ns @ ms) w"
  by (simp add: clear_rt_def)

lemma gen_name_in_map [simp]: "gen_name k g \<in> gen_name k ` A \<longleftrightarrow> g \<in> A"
  by auto

lemma rollback_refines:
  assumes "sandbox_inv st w" "counters_ok st" "rollback_index target st \<noteq> -2"
  obtains rc st' w' where
    "handle_rollback target (st, gl, w) = (rc, (st', gl, w'))"
    "sandbox_inv st' w'" "tree_only w w'" "next_checkpoint_num st' = next_checkpoint_num st"
    "abs_sandbox st' w' = spec_rollback (nat (rollback_index target st + 1)) (fresh_dir w) (abs_sandbox st w)"
proof -
  have p: "places_ok st w" "layers_ok st w" "ids_ok st" using assms(1) by (simp_all add: sandbox_inv_def)
  obtain gs where gs: "map ck_layer_dir (checkpoints st) = map (gen_path st ''upper_'') gs"
    "sorted_wrt (<) (gs @ [generation st])" "gens_ok st (gs @ [generation st]) w"
    "live_upper st = gen_path st ''upper_'' (generation st)"
    "live_work st = gen_path st ''work_'' (generation st)"
    by (rule layers_okE [OF p(2)])
  obtain m where un: "agentbox_cow_unmount (merged_dir st) w = (AGENTBOX_OK, w\<lparr>mtab := m\<rparr>)"
    by (rule unmount_ok [OF p(1)])
  define k where "k = nat (rollback_index target st + 1)"
  let ?w1 = "w\<lparr>mtab := m\<rparr>" and ?g = "generation st"
  let ?ns = "[gen_name ''upper_'' ?g, gen_name ''work_'' ?g] @ map (gen_name ''upper_'') (rev (drop k gs))"
  let ?st1 = "st\<lparr>checkpoints := take k (checkpoints st)\<rparr>"
  have p1: "places_ok st ?w1" using p(1) by simp
  have c1: "snd (agentbox_cow_purge (live_upper st) ?w1) = clear_rt st [gen_name ''upper_'' ?g] ?w1"
    unfolding gs(4) by (rule purge_one(1) [OF p1])
  have c2: "snd (agentbox_cow_purge (live_work st) (clear_rt st [gen_name ''upper_'' ?g] ?w1))
      = clear_rt st [gen_name ''upper_'' ?g, gen_name ''work_'' ?g] ?w1"
    unfolding gs(5) using purge_one(2) [OF clear_rt_ok(1) [OF p1, of "[gen_name ''upper_'' ?g]"]]
    by (simp add: clear_rt_append)
  have "rev (map ck_layer_dir (drop k (checkpoints st))) = map (gen_path st ''upper_'') (rev (drop k gs))"
    using gs(1) by (metis drop_map rev_map)
  then have c3: "purge_all (rev (map ck_layer_dir (drop k (checkpoints st))))
      (clear_rt st [gen_name ''upper_'' ?g, gen_name ''work_'' ?g] ?w1) = clear_rt st ?ns ?w1"
    using purge_all_gens [OF clear_rt_ok(1) [OF p1, of "[gen_name ''upper_'' ?g, gen_name ''work_'' ?g]"]]
    by (simp add: clear_rt_append)
  have kept: "sorted_wrt (<) (take k gs)" "set (take k gs) \<subseteq> set (gs @ [?g])"
    "set (take k gs) \<inter> set (drop k gs) = {}" "?g \<notin> set (take k gs)"
    using gs(2) set_take_disj_set_drop_if_distinct [of gs k k]
    by (auto simp: sorted_wrt_append sorted_wrt_take strict_sorted_iff dest!: in_set_takeD)
  have "map ck_layer_dir (take k (checkpoints st)) = map (gen_path st ''upper_'') (take k gs)"
    using gs(1) by (metis take_map)
  then obtain rc w1 w2 where fin: "new_generation_dirs ?st1 (clear_rt ?st1 ?ns ?w1) = (next_gen_state ?st1, w1)"
    "remount_current (next_gen_state ?st1) w1 = (rc, w2)" "sandbox_inv (next_gen_state ?st1) w2" "tree_only ?w1 w2"
    "abs_sandbox (next_gen_state ?st1) w2 = \<lparr>sb_base = tree ?w1 (workspace_dir ?st1),
       sb_saved = map (\<lambda>c. (ck_id c, tree ?w1 (ck_layer_dir c))) (checkpoints ?st1), sb_live = fresh_dir ?w1\<rparr>"
    using p1 kept assms(2) ids_ok_take [OF p(3), of k] gens_ok_sub [OF gs(3) kept(1,2)]
    by (rule_tac clear_and_finish [of ?st1 ?w1 "take k gs" ?ns]) (auto simp: counters_ok_def list_all_iff)
  have "handle_rollback target (st, gl, w) = (rc, (next_gen_state ?st1, gl, w2))"
    using assms(3) un c1 c2 c3 fin(1,2)
    by (simp add: handle_rollback_def rollback_index_def [symmetric] k_def [symmetric] Let_def)
  moreover have "abs_sandbox (next_gen_state ?st1) w2 = spec_rollback k (fresh_dir w) (abs_sandbox st w)"
    unfolding fin(5) by (simp add: spec_rollback_def abs_sandbox_def take_map)
  ultimately show thesis using that fin(3) tree_only_trans [OF _ fin(4)] by (simp add: k_def)
qed


text \<open>
  Commit. The layers must be replayable onto the workspace, and their paths must fit below it
  (\<open>commit_ready\<close>); then the workspace becomes the replay and the sandbox starts afresh.
\<close>

definition layer_trees :: "supervisor_state \<Rightarrow> world \<Rightarrow> node list" where
  "layer_trees st w = map (tree w) (all_layers st)"

definition commit_ready :: "supervisor_state \<Rightarrow> world \<Rightarrow> bool" where
  "commit_ready st w \<longleftrightarrow>
     replayable (umask w) (layer_trees st w) (tree w (workspace_dir st))
     \<and> list_all (\<lambda>l. fits_all (length (workspace_dir st)) (entries l)) (layer_trees st w)"

lemma tree_at: "lookup (fs w) (comps s) = Some n \<Longrightarrow> tree w s = n"
  by (simp add: tree_def)

lemma dir_at_tree: "dir_at (fs w) (comps s) \<Longrightarrow> lookup (fs w) (comps s) = Some (tree w s) \<and> is_dir (tree w s)"
  by (auto simp: dir_at_def tree_def split: option.splits)

lemma gens_commit_setting:
  assumes "places_ok st w" "gens_ok st gs w"
    and "list_all (\<lambda>g. fits_all (length (workspace_dir st)) (entries (tree w (gen_path st ''upper_'' g)))) gs"
  shows "commit_setting (workspace_dir st) (ws st) (tree w (workspace_dir st))
     (map (gen_path st ''upper_'') gs) (map (\<lambda>g. tree w (gen_path st ''upper_'' g)) gs) w"
proof -
  have "layer_at w (ws st) (workspace_dir st) (gen_path st ''upper_'' g) (tree w (gen_path st ''upper_'' g))"
    if "g \<in> set gs" for g
    using that assms dir_at_tree [of w "gen_path st ''upper_'' g"] rt_ws_parallel [OF assms(1)]
    by (auto simp: layer_at_def gens_ok_def places_ok_def list_all_iff)
  then have "list_all2 (layer_at w (ws st) (workspace_dir st))
      (map (gen_path st ''upper_'') gs) (map (\<lambda>g. tree w (gen_path st ''upper_'' g)) gs)"
    by (simp add: list_all2_conv_all_nth)
  then show ?thesis
    using assms(1) dir_at_tree [of w "workspace_dir st"] by (simp add: commit_setting_def places_ok_def)
qed

lemma dir_at_parallel_put:
  "p \<parallel> q \<Longrightarrow> dir_at (put p v t) q = dir_at t q"
  by (simp add: dir_at_def lookup_put_parallel)

text \<open>Replacing the workspace tree leaves the runtime directory as it is.\<close>

lemma ws_rt_parallel: "places_ok st w \<Longrightarrow> ws st \<parallel> (rt st @ [n])"
  by (rule parallel_sym [OF rt_ws_parallel])

lemma below_ws:
  assumes "places_ok st w" "wf_node d" "is_dir d"
  shows "places_ok st (below (ws st) d w)" "gens_ok st gs (below (ws st) d w) = gens_ok st gs w"
    "tree (below (ws st) d w) (gen_path st ''upper_'' g) = tree w (gen_path st ''upper_'' g)"
    "tree (below (ws st) d w) (workspace_dir st) = d"
proof -
  have W: "ws st \<noteq> []" "dir_at (fs w) (ws st)" "ws st \<parallel> rt st"
    using assms(1) parallel_nonempty [of "rt st" "ws st"] by (auto simp: places_ok_def intro: parallel_sym)
  then have at: "lookup (put (ws st) (Some d) (fs w)) (ws st) = Some d"
    using lookup_put_exists [of "fs w" "ws st"] by (auto elim: dir_atE)
  have "wf_node (put (ws st) (Some d) (fs w))"
    using assms by (intro wf_node_put) (auto simp: places_ok_def)
  then show "places_ok st (below (ws st) d w)"
    using assms at dir_at_parallel_put [OF W(3)] by (simp add: places_ok_def dir_at_def)
  show "gens_ok st gs (below (ws st) d w) = gens_ok st gs w"
    using ws_rt_parallel [OF assms(1)] by (simp add: gens_ok_def dir_at_parallel_put lookup_put_parallel)
  show "tree (below (ws st) d w) (gen_path st ''upper_'' g) = tree w (gen_path st ''upper_'' g)"
    using ws_rt_parallel [OF assms(1)] by (simp add: tree_def lookup_put_parallel)
  show "tree (below (ws st) d w) (workspace_dir st) = d" using at by (simp add: tree_def)
qed

end
