(* ===== verification/History.thy ===== *)
theory History
  imports Sandbox
begin

text \<open>
  Commit refines its abstract operation, and the runs of a supervisor: any sequence of commands in
  the sandbox and of requests keeps the invariant, and a rollback brings back what the sandbox
  showed when the checkpoint was made, whatever happened in between.
\<close>

section \<open>Commit\<close>

lemma is_dir_replay [simp]: "is_dir (replay um ls d) = is_dir d"
  by (induction ls arbitrary: d) (simp_all add: replay_def)

lemma wf_replay: "list_all wf_node ls \<Longrightarrow> wf_node d \<Longrightarrow> wf_node (replay um ls d)"
proof (induction ls arbitrary: d)
  case (Cons l ls)
  have "wf_entries (entries l)" using Cons.prems by (cases l) auto
  then have "wf_node (graft_all um (entries l) d)" using Cons.prems by (intro wf_graft_all) auto
  then show ?case using Cons by (simp add: replay_def)
qed (simp add: replay_def)

lemma wf_tree: "wf_node (fs w) \<Longrightarrow> wf_node (tree w s)"
  using wf_node_lookup by (auto simp: tree_def split: option.split)

lemma layer_trees_gens:
  "map ck_layer_dir (checkpoints st) = map (gen_path st ''upper_'') gs \<Longrightarrow>
   live_upper st = gen_path st ''upper_'' (generation st) \<Longrightarrow>
   all_layers st = map (gen_path st ''upper_'') (gs @ [generation st])
   \<and> layer_trees st w = map (\<lambda>g. tree w (gen_path st ''upper_'' g)) (gs @ [generation st])"
  by (simp add: all_layers_def layer_trees_def)

lemma abs_sandbox_layers: "layer_trees st w = map snd (sb_saved (abs_sandbox st w)) @ [sb_live (abs_sandbox st w)]"
  by (simp add: layer_trees_def all_layers_def abs_sandbox_def)

lemma commit_refines:
  assumes "sandbox_inv st w" "counters_ok st" "commit_ready st w"
  obtains rc st' gl' w' where "handle_commit (st, gl, w) = (rc, (st', gl', w'))"
    "sandbox_inv st' w'" "tree_only w w'" "next_checkpoint_num st' = next_checkpoint_num st"
    "abs_sandbox st' w' = spec_commit (umask w) (fresh_dir w) (abs_sandbox st w)"
proof -
  have p: "places_ok st w" "layers_ok st w" "ids_ok st" using assms(1) by (simp_all add: sandbox_inv_def)
  obtain gs where gs: "map ck_layer_dir (checkpoints st) = map (gen_path st ''upper_'') gs"
    "sorted_wrt (<) (gs @ [generation st])" "gens_ok st (gs @ [generation st]) w"
    "live_upper st = gen_path st ''upper_'' (generation st)"
    "live_work st = gen_path st ''work_'' (generation st)"
    by (rule layers_okE [OF p(2)])
  obtain m where un: "agentbox_cow_unmount (merged_dir st) w = (AGENTBOX_OK, w\<lparr>mtab := m\<rparr>)"
    by (rule unmount_ok [OF p(1)])
  let ?w1 = "w\<lparr>mtab := m\<rparr>" and ?g = "generation st"
  let ?d = "replay (umask w) (layer_trees st w) (tree w (workspace_dir st))"
  let ?w2 = "below (ws st) ?d ?w1"
  note lt = layer_trees_gens [OF gs(1,4), of w]
  have wf: "wf_node ?d" using p(1) by (intro wf_replay) (auto simp: layer_trees_def list_all_iff places_ok_def intro: wf_tree)
  have p1: "places_ok st ?w1" using p(1) by simp
  have dir: "is_dir ?d" using p(1) dir_at_tree [of w "workspace_dir st"] by (simp add: places_ok_def)
  have "commit_setting (workspace_dir st) (ws st) (tree ?w1 (workspace_dir st))
      (map (gen_path st ''upper_'') (gs @ [?g])) (map (\<lambda>g. tree ?w1 (gen_path st ''upper_'' g)) (gs @ [?g])) ?w1"
    using assms(3) lt gs(3) by (intro gens_commit_setting [OF p1]) (simp_all add: commit_ready_def list.pred_map o_def)
  then have "commit_setting (workspace_dir st) (ws st) (tree w (workspace_dir st)) (all_layers st) (layer_trees st w) ?w1"
    unfolding mtab_same using lt by simp
  from commit_merge_replays [OF this, of gl] obtain gl' where
    mg: "agentbox_cow_commit_merge (all_layers st) (workspace_dir st) (gl, ?w1) = (AGENTBOX_OK, (gl', ?w2))"
    using assms(3) by (auto simp: commit_ready_def all_layers_def)
  note b = below_ws [OF p1 wf dir]
  have c1: "purge_all (map ck_layer_dir (checkpoints st)) ?w2 = clear_rt st (map (gen_name ''upper_'') gs) ?w2"
    unfolding gs(1) by (rule purge_all_gens [OF b(1)])
  have wfn: "list_all wf_name (map (gen_name ''upper_'') hs)" for hs by (simp add: list_all_iff)
  have c2: "snd (agentbox_cow_purge (live_upper st) (clear_rt st (map (gen_name ''upper_'') gs) ?w2))
      = clear_rt st (map (gen_name ''upper_'') (gs @ [?g])) ?w2"
    unfolding gs(4) using purge_one(1) [OF clear_rt_ok(1) [OF b(1) wfn]] by (simp add: clear_rt_append)
  let ?ns = "map (gen_name ''upper_'') (gs @ [?g]) @ [gen_name ''work_'' ?g]"
  have c3: "snd (agentbox_cow_purge (live_work st) (clear_rt st (map (gen_name ''upper_'') (gs @ [?g])) ?w2))
      = clear_rt st ?ns ?w2"
    unfolding gs(5) using purge_one(2) [OF clear_rt_ok(1) [OF b(1) wfn]] by (simp only: clear_rt_append)
  let ?st1 = "st\<lparr>checkpoints := []\<rparr>"
  have "gens_ok st [] ?w2" using b(2) gens_ok_sub [OF gs(3), of "[]"] by simp
  then obtain rc w3 w4 where fin: "new_generation_dirs ?st1 (clear_rt ?st1 ?ns ?w2) = (next_gen_state ?st1, w3)"
    "remount_current (next_gen_state ?st1) w3 = (rc, w4)" "sandbox_inv (next_gen_state ?st1) w4" "tree_only ?w2 w4"
    "abs_sandbox (next_gen_state ?st1) w4 = \<lparr>sb_base = tree ?w2 (workspace_dir ?st1),
       sb_saved = map (\<lambda>c. (ck_id c, tree ?w2 (ck_layer_dir c))) (checkpoints ?st1), sb_live = fresh_dir ?w2\<rparr>"
    using b(1) assms(2) ids_ok_take [OF p(3), of 0]
    by (rule_tac clear_and_finish [of ?st1 ?w2 "[]" ?ns]) (simp_all add: counters_ok_def list_all_iff)
  have "handle_commit (st, gl, w) = (rc, (next_gen_state ?st1, gl', w4))"
    using un mg c1 c2 c3 fin(1,2) by (simp add: handle_commit_def Let_def)
  moreover have "abs_sandbox (next_gen_state ?st1) w4 = spec_commit (umask w) (fresh_dir w) (abs_sandbox st w)"
    unfolding fin(5) using b(4)
    by (simp add: spec_commit_def abs_sandbox_layers [symmetric]) (simp add: abs_sandbox_def fresh_dir_def)
  moreover have "tree_only w w4"
    by (rule tree_only_trans [OF tree_only_trans [of _ ?w1] fin(4)]) (simp_all add: below_def)
  ultimately show thesis using that fin(3) by simp
qed


section \<open>The start\<close>

text \<open>
  Workspace and runtime directory as the client hands them over: disjoint directories with paths
  that fit, the runtime directory without left-over layers.
\<close>

definition start_ok :: "string \<Rightarrow> string \<Rightarrow> world \<Rightarrow> bool" where
  "start_ok workspace runtime w \<longleftrightarrow>
     quiet w \<and> wf_node (fs w) \<and> list_all wf_name (comps runtime) \<and> list_all wf_name (comps workspace)
     \<and> comps runtime \<parallel> comps workspace \<and> dir_at (fs w) (comps runtime) \<and> dir_at (fs w) (comps workspace)
     \<and> length runtime \<le> 4000 \<and> length workspace < AGENTBOX_PATH_LEN
     \<and> (\<forall>g. lookup (fs w) (comps runtime @ [gen_name ''upper_'' g]) = None
           \<and> lookup (fs w) (comps runtime @ [gen_name ''work_'' g]) = None)"

lemma wf_merged [simp]: "wf_name ''merged''" "gen_name ''upper_'' g \<noteq> ''merged''" "gen_name ''work_'' g \<noteq> ''merged''"
  by (simp_all add: wf_name_def no_nul_def gen_name_def)

lemma init_refines:
  assumes "start_ok workspace runtime w"
  obtains rc st' w' where "init_supervisor workspace runtime w = (rc, st', w')"
    "sandbox_inv st' w'" "tree_only w w'" "workspace_dir st' = workspace" "runtime_dir st' = runtime"
    "checkpoints st' = []" "generation st' = 1"
    "abs_sandbox st' w' = \<lparr>sb_base = tree w workspace, sb_saved = [], sb_live = fresh_dir w\<rparr>"
proof -
  let ?st = "\<lparr>workspace_dir = workspace, runtime_dir = runtime, merged_dir = runtime @ ''/merged'',
      live_upper = [], live_work = [], generation = 0, next_checkpoint_num = 0, run_counter = 0, checkpoints = []\<rparr>"
  let ?v = "case lookup (fs w) (comps runtime @ [''merged'']) of None \<Rightarrow> Some (fresh_dir w) | Some n \<Rightarrow> Some n"
  let ?w1 = "snd (sys_mkdir (runtime @ ''/merged'') 448 w)"
  have st: "snprintf AGENTBOX_PATH_LEN workspace = workspace" "snprintf AGENTBOX_PATH_LEN runtime = runtime"
    "snprintf AGENTBOX_PATH_LEN (runtime @ ''/merged'') = runtime @ ''/merged''"
    using assms by (simp_all add: start_ok_def AGENTBOX_PATH_LEN_def)
  have p: "places_ok ?st w" using assms by (simp add: start_ok_def places_ok_def)
  have m: "?w1 = w \<or> ?w1 = w\<lparr>fs := put (rt ?st @ [''merged'']) (Some (fresh_dir w)) (fs w)\<rparr>"
  proof (cases "lookup (fs w) (comps runtime @ [''merged''])")
    case None
    then show ?thesis using mkdir_free [OF p, of "''merged''"] by simp
  next
    case (Some n)
    have "names w (runtime @ ''/merged'') (comps runtime @ [''merged''])"
      using p comps_join [of runtime "''merged''"] by (auto simp: names_def places_ok_def wf_name_plain_all comps_name)
    then show ?thesis using Some p by (simp add: sys_mkdir_def quiet_entry_call places_ok_def)
  qed
  have p1: "places_ok ?st ?w1" using m places_ok_edit [OF p, of "''merged''" "Some (fresh_dir w)"] p by auto
  have R: "dir_at (fs w) (comps runtime)" using assms by (simp add: start_ok_def)
  have "lookup (fs ?w1) (comps runtime @ [gen_name ''upper_'' g]) = None
      \<and> lookup (fs ?w1) (comps runtime @ [gen_name ''work_'' g]) = None" for g
    using m assms entry.get_upd [OF R, of "''merged''"] by (auto simp: start_ok_def)
  then have g1: "gens_ok ?st [] ?w1" by (simp add: gens_ok_def)
  obtain st2 w2 where ng: "new_generation_dirs ?st ?w1 = (st2, w2)" by fastforce
  obtain rc w3 where rm: "remount_current st2 w2 = (rc, w3)" by fastforce
  have ids: "ids_ok ?st" by (simp add: ids_ok_def)
  note fin = finish_generation [OF p1 g1 _ _ ids ng rm, simplified]
  have "tree ?w1 workspace = tree w workspace" "fresh_dir ?w1 = fresh_dir w" "tree_only w ?w1"
    using m tree_ws_edit [OF p, of "''merged''" "Some (fresh_dir w)"] by (auto simp: tree_only_def)
  moreover have "init_supervisor workspace runtime w = (rc, st2, w3)"
    using ng rm by (simp add: init_supervisor_def Let_def st)
  ultimately show thesis using that [of rc st2 w3] fin tree_only_trans by (simp add: next_gen_state_def)
qed


section \<open>Runs of the supervisor\<close>

text \<open>
  A command in the sandbox writes through the overlay into the live upper directory, the kernel
  uses the live work directory, and the supervisor stores the captured output in
  \<^verbatim>\<open>run_*.txt\<close> files. Nothing else of the tree changes while it runs: this is the confinement the
  mount gives, not something the code checks.
\<close>

definition run_entry :: "string \<Rightarrow> bool" where
  "run_entry n \<longleftrightarrow> take 4 n = ''run_''"

definition confined :: "supervisor_state \<Rightarrow> world \<Rightarrow> world \<Rightarrow> bool" where
  "confined st w w' \<longleftrightarrow>
     quiet w' \<and> umask w' = umask w \<and> wf_node (fs w') \<and> dir_at (fs w') (rt st)
     \<and> lookup (fs w') (ws st) = lookup (fs w) (ws st)
     \<and> dir_at (fs w') (rt st @ [gen_name ''upper_'' (generation st)])
     \<and> (\<forall>n. \<not> run_entry n \<and> n \<noteq> gen_name ''upper_'' (generation st) \<and> n \<noteq> gen_name ''work_'' (generation st)
           \<longrightarrow> lookup (fs w') (rt st @ [n]) = lookup (fs w) (rt st @ [n]))"

inductive sup_step :: "engine \<Rightarrow> engine \<Rightarrow> bool" where
  run: "confined st w w' \<Longrightarrow> sup_step (st, gl, w) (st\<lparr>run_counter := n\<rparr>, gl, w')"
| checkpoint: "counters_ok st \<Longrightarrow> handle_checkpoint tag (st, gl, w) = (r, e) \<Longrightarrow> sup_step (st, gl, w) e"
| rollback: "counters_ok st \<Longrightarrow> handle_rollback target (st, gl, w) = (rc, e) \<Longrightarrow> sup_step (st, gl, w) e"
| commit: "counters_ok st \<Longrightarrow> commit_ready st w \<Longrightarrow> handle_commit (st, gl, w) = (rc, e) \<Longrightarrow> sup_step (st, gl, w) e"
| diff: "handle_diff (st, gl, w) = (r, e) \<Longrightarrow> sup_step (st, gl, w) e"

inductive_cases sup_stepE: "sup_step (st, gl, w) e"

inductive sup_steps :: "engine \<Rightarrow> engine \<Rightarrow> bool" where
  stay: "sup_steps e e"
| more: "sup_steps e e' \<Longrightarrow> sup_step e' e'' \<Longrightarrow> sup_steps e e''"

lemma run_entry_gen [simp]: "\<not> run_entry (gen_name ''upper_'' g)" "\<not> run_entry (gen_name ''work_'' g)"
  by (simp_all add: run_entry_def gen_name_def)

lemma confined_inv:
  assumes "sandbox_inv st w" "confined st w w'"
  shows "sandbox_inv (st\<lparr>run_counter := n\<rparr>) w'"
proof -
  have p: "places_ok st w" "layers_ok st w" "ids_ok st" using assms(1) by (simp_all add: sandbox_inv_def)
  have gp: "gen_path (st\<lparr>run_counter := n\<rparr>) = gen_path st" by (simp add: gen_path_def fun_eq_iff)
  have same: "lookup (fs w') (rt st @ [gen_name ''upper_'' g]) = lookup (fs w) (rt st @ [gen_name ''upper_'' g])"
    "lookup (fs w') (rt st @ [gen_name ''work_'' g]) = lookup (fs w) (rt st @ [gen_name ''work_'' g])"
    if "g \<noteq> generation st" for g
    using assms(2) that by (simp_all add: confined_def)
  have "places_ok (st\<lparr>run_counter := n\<rparr>) w'"
    using p(1) assms(2) by (simp add: places_ok_def confined_def dir_at_def)
  moreover have "ids_ok (st\<lparr>run_counter := n\<rparr>)" using p(3) by (simp add: ids_ok_def)
  moreover have "layers_ok (st\<lparr>run_counter := n\<rparr>) w'"
  proof -
    obtain gs where gs: "map ck_layer_dir (checkpoints st) = map (gen_path st ''upper_'') gs"
      "sorted_wrt (<) (gs @ [generation st])"
      "\<forall>g \<in> set gs. 0 \<le> g \<and> dir_at (fs w) (rt st @ [gen_name ''upper_'' g])"
      using p(2) unfolding layers_ok_def by blast
    have "dir_at (fs w') (rt st @ [gen_name ''upper_'' g])" if "g \<in> set gs" for g
      using gs that same(1) [of g] by (auto simp: sorted_wrt_append dir_at_def)
    then have "\<exists>gs. map ck_layer_dir (checkpoints st) = map (gen_path st ''upper_'') gs
        \<and> sorted_wrt (<) (gs @ [generation st])
        \<and> (\<forall>g \<in> set gs. 0 \<le> g \<and> dir_at (fs w') (rt st @ [gen_name ''upper_'' g]))"
      using gs by blast
    moreover have "\<forall>g > generation st. lookup (fs w') (rt st @ [gen_name ''upper_'' g]) = None
        \<and> lookup (fs w') (rt st @ [gen_name ''work_'' g]) = None"
      using p(2) same by (simp add: layers_ok_def)
    ultimately show ?thesis
      using p(2) assms(2) unfolding layers_ok_def gp by (simp add: confined_def)
  qed
  ultimately show ?thesis by (simp add: sandbox_inv_def)
qed

lemma confined_abs:
  assumes "sandbox_inv st w" "confined st w w'"
  shows "abs_sandbox (st\<lparr>run_counter := n\<rparr>) w' = (abs_sandbox st w)\<lparr>sb_live := tree w' (live_upper st)\<rparr>"
proof -
  have p: "places_ok st w" "layers_ok st w" using assms(1) by (simp_all add: sandbox_inv_def)
  obtain gs where gs: "map ck_layer_dir (checkpoints st) = map (gen_path st ''upper_'') gs"
    "sorted_wrt (<) (gs @ [generation st])"
    by (rule layers_okE [OF p(2)])
  have "tree w' (gen_path st ''upper_'' g) = tree w (gen_path st ''upper_'' g)" if "g \<in> set gs" for g
    using gs(2) that assms(2) by (auto simp: confined_def tree_def sorted_wrt_append)
  then have "\<forall>l \<in> set (map ck_layer_dir (checkpoints st)). tree w' l = tree w l"
    unfolding gs(1) by simp
  moreover have "tree w' (workspace_dir st) = tree w (workspace_dir st)"
    using assms(2) by (simp add: confined_def tree_def)
  ultimately show ?thesis by (simp add: abs_sandbox_def)
qed


text \<open>Every step keeps the invariant.\<close>

lemma checkpoint_limit:
  "AGENTBOX_MAX_CHECKPOINTS \<le> checkpoint_count st \<Longrightarrow>
     handle_checkpoint tag (st, gl, w) = (Inl AGENTBOX_ERR_CHECKPOINT_LIMIT_REACHED, (st, gl, w))"
  by (simp add: handle_checkpoint_def)

lemma rollback_unknown:
  "rollback_index target st = -2 \<Longrightarrow>
     handle_rollback target (st, gl, w) = (AGENTBOX_ERR_CHECKPOINT_NOT_FOUND, (st, gl, w))"
  by (simp add: handle_rollback_def rollback_index_def)

lemma handle_diff_state: "handle_diff (st, gl, w) = (r, e) \<Longrightarrow> \<exists>gl'. e = (st, gl', w)"
  by (auto simp: handle_diff_def agentbox_cow_diff_def Let_def split: prod.splits if_splits)

text \<open>
  The cases of a step, as what it does to the abstract sandbox \<open>s\<close> and to the number \<open>n\<close> of the
  next checkpoint.
\<close>

inductive sb_step :: "sandbox \<Rightarrow> int \<Rightarrow> sandbox \<Rightarrow> int \<Rightarrow> bool" where
  sb_run: "sb_step s n (s\<lparr>sb_live := u\<rparr>) n"
| sb_save: "sb_step s n (spec_checkpoint (gen_name ''ckpt-'' n) e s) (n + 1)"
| sb_back: "sb_step s n (spec_rollback k e s) n"
| sb_flush: "sb_step s n (spec_commit um e s) n"
| sb_same: "sb_step s n s n"

lemma step_refines:
  assumes "sup_step (st, gl, w) (st', gl', w')" "sandbox_inv st w"
  shows "sandbox_inv st' w' \<and> umask w' = umask w
    \<and> sb_step (abs_sandbox st w) (next_checkpoint_num st) (abs_sandbox st' w') (next_checkpoint_num st')"
  using assms(1)
proof (cases rule: sup_step.cases)
  case (run n)
  then have "umask w' = umask w" by (simp add: confined_def)
  then show ?thesis
    using run confined_inv [OF assms(2)] sb_run by (simp add: confined_abs [OF assms(2)])
next
  case (checkpoint tag r)
  show ?thesis
  proof (cases "checkpoint_count st < AGENTBOX_MAX_CHECKPOINTS")
    case True
    obtain rc st2 w2 where
      "handle_checkpoint tag (st, gl, w) = (if rc = AGENTBOX_OK then Inr (next_id st) else Inl rc, (st2, gl, w2))"
      "sandbox_inv st2 w2" "tree_only w w2" "next_checkpoint_num st2 = next_checkpoint_num st + 1"
      "abs_sandbox st2 w2 = spec_checkpoint (next_id st) (fresh_dir w) (abs_sandbox st w)"
      by (rule checkpoint_refines [OF assms(2) _ True]) (use checkpoint in simp)
    then show ?thesis using checkpoint by (simp add: next_id_def sb_save tree_only_umask)
  next
    case False
    then show ?thesis using checkpoint assms(2) checkpoint_limit [of st tag gl w] by (simp add: sb_same)
  qed
next
  case (rollback target rc)
  show ?thesis
  proof (cases "rollback_index target st = -2")
    case True
    then show ?thesis using rollback assms(2) rollback_unknown [of target st gl w] by (simp add: sb_same)
  next
    case False
    obtain rc st2 w2 where "handle_rollback target (st, gl, w) = (rc, (st2, gl, w2))"
      "sandbox_inv st2 w2" "tree_only w w2" "next_checkpoint_num st2 = next_checkpoint_num st"
      "abs_sandbox st2 w2 = spec_rollback (nat (rollback_index target st + 1)) (fresh_dir w) (abs_sandbox st w)"
      by (rule rollback_refines [OF assms(2) _ False]) (use rollback in simp)
    then show ?thesis using rollback by (simp add: sb_back tree_only_umask)
  qed
next
  case (commit rc)
  obtain rc st2 gl2 w2 where "handle_commit (st, gl, w) = (rc, (st2, gl2, w2))"
    "sandbox_inv st2 w2" "tree_only w w2" "next_checkpoint_num st2 = next_checkpoint_num st"
    "abs_sandbox st2 w2 = spec_commit (umask w) (fresh_dir w) (abs_sandbox st w)"
    by (rule commit_refines [OF assms(2), where gl = gl]) (use commit in simp_all)
  then show ?thesis using commit by (simp add: sb_flush tree_only_umask)
next
  case (diff r)
  then show ?thesis using assms(2) handle_diff_state by (fastforce intro: sb_same)
qed

text \<open>
  A saved layer stays where it is, with the layers before it and the workspace below it, or it is
  gone; its number is not used again.
\<close>

definition snapshot :: "int \<Rightarrow> (string \<times> node) list \<Rightarrow> node \<Rightarrow> node \<Rightarrow> sandbox \<Rightarrow> bool" where
  "snapshot m L t b s \<longleftrightarrow>
     sb_base s = b \<and> (\<exists>M. sb_saved s = L @ (gen_name ''ckpt-'' m, t) # M)
   \<or> gen_name ''ckpt-'' m \<notin> fst ` set (sb_saved s)"

lemma snapshot_take:
  assumes "distinct (map fst (L @ (i, t) # M))"
  shows "(\<exists>N. take k (L @ (i, t) # M) = L @ (i, t) # N) \<or> i \<notin> fst ` set (take k (L @ (i, t) # M))"
proof (cases "k \<le> length L")
  case True
  then have "take k (L @ (i, t) # M) = take k L" by simp
  moreover have "i \<notin> fst ` set L" using assms by auto
  ultimately show ?thesis by (auto dest: in_set_takeD)
next
  case False
  then obtain j where "k - length L = Suc j" by (metis Suc_diff_Suc linorder_not_le)
  then show ?thesis using False by simp
qed

lemma sb_step_snapshot:
  assumes "sb_step s n s' n'" "snapshot m L t b s" "distinct (map fst (sb_saved s))" "m < n"
  shows "snapshot m L t b s' \<and> m < n'"
  using assms(1)
proof (cases rule: sb_step.cases)
  case (sb_save e)
  then show ?thesis using assms(2,4) by (auto simp: snapshot_def spec_checkpoint_def)
next
  case (sb_back k e)
  have s': "sb_base s' = sb_base s" "sb_saved s' = take k (sb_saved s)" "n' = n"
    using sb_back by (simp_all add: spec_rollback_def)
  show ?thesis
  proof (cases "gen_name ''ckpt-'' m \<in> fst ` set (sb_saved s)")
    case True
    then obtain M where "sb_base s = b" and M: "sb_saved s = L @ (gen_name ''ckpt-'' m, t) # M"
      using assms(2) by (auto simp: snapshot_def)
    from snapshot_take [OF assms(3) [unfolded M], of k]
    have "(\<exists>N. sb_saved s' = L @ (gen_name ''ckpt-'' m, t) # N) \<or> gen_name ''ckpt-'' m \<notin> fst ` set (sb_saved s')"
      by (simp only: s' M)
    then show ?thesis
      using s'(1,3) \<open>sb_base s = b\<close> assms(4) by (auto simp: snapshot_def)
  next
    case False
    then show ?thesis using s' assms(4) by (auto simp: snapshot_def dest: in_set_takeD)
  qed
qed (use assms(2,4) in \<open>auto simp: snapshot_def spec_commit_def\<close>)


section \<open>What is mounted\<close>

definition stack_text :: "string list \<Rightarrow> string" where
  "stack_text layers = concat (map (\<lambda>l. l @ '':'') layers)"

lemma lower_stack_loop_fits:
  "length out = off \<Longrightarrow> off + length (stack_text layers) < n \<Longrightarrow>
     lower_stack_loop layers n off out = (off + length (stack_text layers), out @ stack_text layers)"
proof (induction layers arbitrary: off out)
  case (Cons l ls)
  have "snprintf (n - off) (l @ '':'') = l @ '':''"
    using Cons.prems by (intro snprintf_fits) (simp add: stack_text_def)
  then show ?case
    using Cons.prems Cons.IH [of "out @ l @ '':''" "off + length (l @ '':'')"]
    by (simp add: stack_text_def)
qed (simp add: stack_text_def)

lemma length_stack_text: "length (stack_text layers) = (\<Sum>l\<leftarrow>layers. length l + 1)"
  by (induction layers) (simp_all add: stack_text_def)

lemma lower_stack_len_alt:
  "lower_stack_len st = length (stack_text (rev (map ck_layer_dir (checkpoints st)))) + length (workspace_dir st) + 1"
  by (simp add: lower_stack_len_def length_stack_text rev_map [symmetric] sum_list_rev o_def)

text \<open>The buffer allocated for the lower stack holds it exactly.\<close>

lemma build_lower_stack_fits:
  "build_lower_stack st (lower_stack_len st)
     = Some (stack_text (rev (map ck_layer_dir (checkpoints st))) @ workspace_dir st)"
proof -
  have "lower_stack_loop (rev (map ck_layer_dir (checkpoints st))) (lower_stack_len st) 0 []
      = (length (stack_text (rev (map ck_layer_dir (checkpoints st)))), stack_text (rev (map ck_layer_dir (checkpoints st))))"
    using lower_stack_loop_fits [of "[]" 0 "rev (map ck_layer_dir (checkpoints st))" "lower_stack_len st"]
    by (simp add: lower_stack_len_alt)
  then show ?thesis by (simp add: build_lower_stack_def lower_stack_len_alt)
qed

definition current_opts :: "supervisor_state \<Rightarrow> string" where
  "current_opts st = mount_opts (stack_text (rev (map ck_layer_dir (checkpoints st))) @ workspace_dir st)
     (live_upper st) (live_work st)"

lemma remount_mounts:
  "remount_current st w = (AGENTBOX_OK, w') \<Longrightarrow> mtab w' = (merged_dir st, current_opts st) # mtab w"
  by (auto simp: remount_current_def build_lower_stack_fits agentbox_cow_mount_def current_opts_def
      sys_mount_def Let_def split: option.splits if_splits)

lemma remount_succeeds:
  assumes "mem w (lower_stack_len st)" "length (current_opts st) < PATH_MAX * 4"
    and "mount_answer w (current_opts st) (merged_dir st) = None"
  shows "remount_current st w = (AGENTBOX_OK, w\<lparr>mtab := (merged_dir st, current_opts st) # mtab w\<rparr>)"
  using assms
  by (simp add: remount_current_def build_lower_stack_fits agentbox_cow_mount_def current_opts_def
      sys_mount_def Let_def)


section \<open>A rollback restores\<close>

lemma saved_ids: "map fst (sb_saved (abs_sandbox st w)) = map ck_id (checkpoints st)"
  by (simp add: abs_sandbox_def o_def)

lemma ids_ok_distinct: "ids_ok st \<Longrightarrow> distinct (map ck_id (checkpoints st))"
proof -
  assume "ids_ok st"
  then obtain ns where "map ck_id (checkpoints st) = map (gen_name ''ckpt-'') ns"
    "sorted_wrt (<) (ns @ [next_checkpoint_num st])"
    unfolding ids_ok_def by blast
  then show ?thesis by (simp add: distinct_map inj_on_def sorted_wrt_append strict_sorted_iff)
qed

lemma steps_keep:
  assumes "sup_steps e e'" "e = (st, gl, w)" "sandbox_inv st w" "e' = (st', gl', w')"
    and "snapshot m L t b (abs_sandbox st w)" "m < next_checkpoint_num st"
  shows "sandbox_inv st' w' \<and> umask w' = umask w \<and> snapshot m L t b (abs_sandbox st' w') \<and> m < next_checkpoint_num st'"
  using assms
proof (induction arbitrary: st' gl' w' rule: sup_steps.induct)
  case (more e e1 e2)
  obtain st1 gl1 w1 where e1: "e1 = (st1, gl1, w1)" by (cases e1) auto
  note IH = more.IH [OF more.prems(1,2) e1 more.prems(4,5)]
  have step: "sup_step (st1, gl1, w1) (st', gl', w')" using more.hyps(2) more.prems(3) e1 by simp
  have d: "distinct (map fst (sb_saved (abs_sandbox st1 w1)))"
    using IH by (simp add: saved_ids ids_ok_distinct sandbox_inv_def)
  from step_refines [OF step] IH
  have "sandbox_inv st' w' \<and> umask w' = umask w
      \<and> sb_step (abs_sandbox st1 w1) (next_checkpoint_num st1) (abs_sandbox st' w') (next_checkpoint_num st')"
    by simp
  with sb_step_snapshot [OF _ _ d] IH show ?case by blast
qed simp

lemma find_checkpoint_at:
  "map ck_id cs = is @ i # js \<Longrightarrow> i \<notin> set is \<Longrightarrow> find_checkpoint cs i k = k + int (length is)"
proof (induction "is" arbitrary: cs k)
  case Nil
  then show ?case by (cases cs) auto
next
  case (Cons j "is")
  then obtain c cs' where cs: "cs = c # cs'" "ck_id c = j" "map ck_id cs' = is @ i # js" by (cases cs) auto
  then show ?case using Cons.IH [OF cs(3), of "k + 1"] Cons.prems by auto
qed

lemma gen_name_nonempty [simp]: "gen_name k g \<noteq> []"
  by (simp add: gen_name_def)

lemma rollback_to_snapshot:
  assumes "sandbox_inv st w" "counters_ok st" "snapshot m L t b (abs_sandbox st w)"
    and "gen_name ''ckpt-'' m \<in> ck_id ` set (checkpoints st)"
    and "handle_rollback (Some (gen_name ''ckpt-'' m)) (st, gl, w) = (rc, (st', gl', w'))"
  shows "abs_sandbox st' w' = \<lparr>sb_base = b, sb_saved = L @ [(gen_name ''ckpt-'' m, t)], sb_live = fresh_dir w\<rparr>"
proof -
  let ?i = "gen_name ''ckpt-'' m"
  have "?i \<in> fst ` set (sb_saved (abs_sandbox st w))"
    using assms(4) saved_ids [of st w] by (metis list.set_map)
  then obtain M where M: "sb_base (abs_sandbox st w) = b" "sb_saved (abs_sandbox st w) = L @ (?i, t) # M"
    using assms(3) by (auto simp: snapshot_def)
  have ids: "map ck_id (checkpoints st) = map fst L @ ?i # map fst M"
    using saved_ids [of st w] M(2) by simp
  moreover have "distinct (map ck_id (checkpoints st))" using assms(1) by (simp add: sandbox_inv_def ids_ok_distinct)
  ultimately have "?i \<notin> set (map fst L)" by (auto simp del: set_map)
  then have ix: "rollback_index (Some ?i) st = int (length L)"
    using find_checkpoint_at [OF ids, of 0] by (simp add: rollback_index_def)
  obtain rc2 st2 w2 where r: "handle_rollback (Some ?i) (st, gl, w) = (rc2, (st2, gl, w2))"
    "abs_sandbox st2 w2 = spec_rollback (nat (rollback_index (Some ?i) st + 1)) (fresh_dir w) (abs_sandbox st w)"
    by (rule rollback_refines [OF assms(1,2), of "Some ?i" gl]) (use ix in auto)
  then show ?thesis
    using assms(5) M by (simp add: ix spec_rollback_def nat_add_distrib)
qed

end
