(* ===== verification/Scenario.thy ===== *)
theory Scenario
  imports History
begin

text \<open>
  A small sandbox for the witnesses: a workspace with a file and a directory, and the supervisor
  right after its start. Its states are what the code computes (\<open>demo_init\<close>, \<open>demo_checkpoint\<close>).
\<close>

definition demo_ws :: node where
  "demo_ws = Dir 493 [] [(''a'', Reg 420 ''x''), (''d'', Dir 493 [] [(''f'', Reg 420 ''y'')])]"

definition demo_dir :: node where
  "demo_dir = Dir 448 [] []"

definition demo_tree :: "(string \<times> node) list \<Rightarrow> node" where
  "demo_tree es = Dir 493 [] [(''ws'', demo_ws), (''rt'', Dir 493 [] es)]"

definition demo_world :: "(string \<times> node) list \<Rightarrow> world" where
  "demo_world es = \<lparr>fs = demo_tree es, mtab = [], clock_ms = 7, umask = 18, refuse = (\<lambda>op s. None),
     wsize = (\<lambda>n. n), mem = (\<lambda>n. True), mount_answer = (\<lambda>a b. None), fuse_answer = (\<lambda>a b. None)\<rparr>"

definition demo_globals :: cow_globals where
  "demo_globals = \<lparr>g_merge_layer_root = [], g_merge_target_root = [], g_merge_error = AGENTBOX_OK,
     g_diff_entries = [], g_diff_cap = 0, g_diff_error = AGENTBOX_OK\<rparr>"

definition demo_state :: supervisor_state where
  "demo_state = \<lparr>workspace_dir = ''/ws'', runtime_dir = ''/rt'', merged_dir = ''/rt/merged'',
     live_upper = ''/rt/upper_1'', live_work = ''/rt/work_1'', generation = 1, next_checkpoint_num = 0,
     run_counter = 0, checkpoints = []\<rparr>"

text \<open>The live layer after a command has rewritten \<open>a\<close> and removed \<open>d/f\<close>.\<close>

definition demo_live :: node where
  "demo_live = Dir 448 [] [(''a'', Reg 420 ''z''), (''d'', Dir 493 [] [(''f'', Chr 0 0 0)])]"

definition demo_entries :: "(string \<times> node) list" where
  "demo_entries = [(''merged'', demo_dir), (''upper_1'', demo_live), (''work_1'', demo_dir)]"

definition demo1 :: world where
  "demo1 = demo_world demo_entries"

lemmas demo_defs = demo_ws_def demo_dir_def demo_tree_def demo_world_def demo_globals_def demo_state_def
  demo_live_def demo_entries_def demo1_def

lemma demo_comps: "comps ''/ws'' = [''ws'']" "comps ''/rt'' = [''rt'']"
  by code_simp+

lemma dec_one: "dec_of_int 1 = ''1''" "dec_of_int 2 = ''2''"
  by code_simp+

lemma dec_is_one: "dec_of_int g = ''1'' \<longleftrightarrow> g = 1" "dec_of_int g = ''2'' \<longleftrightarrow> g = 2"
  using dec_of_int_inj [of g 1] dec_of_int_inj [of g 2] dec_one by auto

lemma demo_quiet [simp]: "quiet (demo_world es)"
  by (simp add: quiet_def demo_world_def)

lemma demo_inv: "sandbox_inv demo_state demo1"
  by (simp add: sandbox_inv_def places_ok_def layers_ok_def ids_ok_def demo_defs quiet_def demo_comps
      parallel_def prefix_def dir_at_def wf_name_def no_nul_def dec_is_one gen_name_def gen_path_def dec_one)

lemma demo_counters: "counters_ok demo_state"
  by (simp add: counters_ok_def demo_state_def)

text \<open>A checkpoint of it.\<close>

definition demo_state2 :: supervisor_state where
  "demo_state2 = \<lparr>workspace_dir = ''/ws'', runtime_dir = ''/rt'', merged_dir = ''/rt/merged'',
     live_upper = ''/rt/upper_2'', live_work = ''/rt/work_2'', generation = 2, next_checkpoint_num = 1,
     run_counter = 0,
     checkpoints = [\<lparr>ck_id = ''ckpt-0'', ck_tag = ''t'', ck_layer_dir = ''/rt/upper_1'', ck_created_at_ms = 7\<rparr>]\<rparr>"

definition demo_entries2 :: "node \<Rightarrow> (string \<times> node) list" where
  "demo_entries2 up = [(''merged'', demo_dir), (''upper_1'', demo_live), (''upper_2'', up), (''work_2'', demo_dir)]"

definition demo2 :: "node \<Rightarrow> world" where
  "demo2 up = (demo_world (demo_entries2 up))\<lparr>mtab := [(''/rt/merged'', current_opts demo_state2)]\<rparr>"

lemma demo_checkpoint_parts:
  "(\<lambda>(r, st, g, w). (r, st, g, fs w, mtab w)) (handle_checkpoint ''t'' (demo_state, demo_globals, demo1))
     = (Inr ''ckpt-0'', demo_state2, demo_globals, fs (demo2 demo_dir), mtab (demo2 demo_dir))"
  by code_simp

lemma demo_checkpoint:
  "handle_checkpoint ''t'' (demo_state, demo_globals, demo1) = (Inr ''ckpt-0'', (demo_state2, demo_globals, demo2 demo_dir))"
proof -
  have "checkpoint_count demo_state < AGENTBOX_MAX_CHECKPOINTS" by code_simp
  then obtain r st' w' where h: "handle_checkpoint ''t'' (demo_state, demo_globals, demo1) = (r, (st', demo_globals, w'))"
    "tree_only demo1 w'"
    by (rule checkpoint_refines [OF demo_inv demo_counters]) blast
  then have "fs w' = fs (demo2 demo_dir)" "mtab w' = mtab (demo2 demo_dir)" "r = Inr ''ckpt-0''" "st' = demo_state2"
    using demo_checkpoint_parts by simp_all
  then show ?thesis using h by (simp add: tree_only_def demo2_def demo1_def demo_world_def)
qed


text \<open>Its start, on an empty runtime directory.\<close>

definition demo_started :: world where
  "demo_started = (demo_world [(''merged'', demo_dir), (''upper_1'', demo_dir), (''work_1'', demo_dir)])
     \<lparr>mtab := [(''/rt/merged'', current_opts demo_state)]\<rparr>"

lemma demo_start_ok: "start_ok ''/ws'' ''/rt'' (demo_world [])"
  by (simp add: start_ok_def demo_defs quiet_def demo_comps parallel_def prefix_def dir_at_def wf_name_def
      no_nul_def AGENTBOX_PATH_LEN_def)

lemma demo_init_parts:
  "(\<lambda>(r, st, w). (r, st, fs w, mtab w)) (init_supervisor ''/ws'' ''/rt'' (demo_world []))
     = (AGENTBOX_OK, demo_state, fs demo_started, mtab demo_started)"
  by code_simp

lemma demo_init:
  "init_supervisor ''/ws'' ''/rt'' (demo_world []) = (AGENTBOX_OK, demo_state, demo_started)"
proof -
  obtain r st' w' where h: "init_supervisor ''/ws'' ''/rt'' (demo_world []) = (r, st', w')" "tree_only (demo_world []) w'"
    by (rule init_refines [OF demo_start_ok]) blast
  then have "fs w' = fs demo_started" "mtab w' = mtab demo_started" "r = AGENTBOX_OK" "st' = demo_state"
    using demo_init_parts by simp_all
  then show ?thesis using h by (simp add: tree_only_def demo_started_def demo_world_def)
qed

text \<open>After the checkpoint a command writes the new live layer.\<close>

definition demo_later :: node where
  "demo_later = Dir 448 [] [(''a'', Reg 420 ''q''), (''n'', Lnk ''a'')]"

lemma dir_name_two: "gen_name ''upper_'' 2 = ''upper_2''" "gen_name ''work_'' 2 = ''work_2''"
  by (simp_all add: gen_name_def dec_one)

lemma demo_confined: "confined demo_state2 (demo2 demo_dir) (demo2 demo_later)"
  by (simp add: confined_def demo_defs demo2_def demo_state2_def demo_entries2_def demo_later_def quiet_def
      demo_comps dir_at_def wf_name_def no_nul_def dir_name_two)

lemma demo_steps:
  "sup_steps (demo_state2, demo_globals, demo2 demo_dir) (demo_state2\<lparr>run_counter := 1\<rparr>, demo_globals, demo2 demo_later)"
  by (rule sup_steps.more [OF sup_steps.stay sup_step.run [OF demo_confined]])

end
