(* ===== verification/Guarantees.thy ===== *)
theory Guarantees
  imports Scenario
begin

text \<open>
  What the handlers of the supervisor promise, stated over what the sandboxed processes see
  (\<^const>\<open>sandbox_view\<close>), over the supervisor's table of checkpoints and over the overlay they
  leave mounted. Witnesses run the code on the small sandbox of \<^theory_text>\<open>Scenario\<close>.
\<close>

section \<open>Commit\<close>

text \<open>Replaying never brings a whiteout into the workspace.\<close>

lemma no_whiteouts_delete: "no_whiteouts_all es \<Longrightarrow> no_whiteouts_all (AList.delete n es)"
  by (induction es) auto

lemma no_whiteouts_update: "no_whiteouts_all es \<Longrightarrow> no_whiteouts c \<Longrightarrow> no_whiteouts_all (AList.update n c es)"
  by (induction es) auto

lemma no_whiteouts_put1:
  assumes "no_whiteouts d" "\<And>c. v = Some c \<Longrightarrow> no_whiteouts c"
  shows "no_whiteouts (put [n] v d)"
proof (cases d)
  case (Dir m x es)
  then show ?thesis using assms by (cases v) (simp_all add: no_whiteouts_delete no_whiteouts_update)
qed (use assms(1) in simp_all)

lemma no_whiteouts_grafts:
  shows no_whiteouts_graft: "no_whiteouts d \<Longrightarrow> no_whiteouts (graft um c n d)"
    and no_whiteouts_graft_all: "no_whiteouts d \<Longrightarrow> no_whiteouts (graft_all um es d)"
proof (induction um c n d and um es d rule: graft_graft_all.induct)
  case (5 um m x es n d)
  let ?d1 = "if opaque_xattr x then put [n] None d else d"
  let ?sub = "case lookup ?d1 [n] of Some k \<Rightarrow> k | None \<Rightarrow> Dir (m AND 1023 AND NOT um) [] []"
  have "no_whiteouts (put [n] None d)" using "5.prems" by (rule no_whiteouts_put1) simp
  then have d1: "no_whiteouts ?d1" using "5.prems" by simp
  then have "no_whiteouts ?sub" using no_whiteouts_child [OF d1, of n] by (simp del: lookup.simps split: option.split)
  then have "no_whiteouts (graft_all um es ?sub)" by (rule "5.IH" [OF refl refl])
  then have "no_whiteouts (put [n] (Some (graft_all um es ?sub)) ?d1)"
    by (intro no_whiteouts_put1 [OF d1]) simp
  then show ?case by (simp only: graft.simps Let_def)
qed (auto intro!: no_whiteouts_put1)

lemma no_whiteouts_replay: "no_whiteouts d \<Longrightarrow> no_whiteouts (replay um ls d)"
  by (induction ls arbitrary: d) (simp_all add: replay_def no_whiteouts_graft_all)

text \<open>The three directories of a sandbox never change.\<close>

definition dirs :: "supervisor_state \<Rightarrow> string \<times> string \<times> string" where
  "dirs st = (workspace_dir st, runtime_dir st, merged_dir st)"

lemma dirs_update [simp]:
  "dirs (st\<lparr>checkpoints := cs\<rparr>) = dirs st" "dirs (st\<lparr>run_counter := n\<rparr>) = dirs st"
  "dirs (st\<lparr>next_checkpoint_num := k\<rparr>) = dirs st"
  "dirs (st\<lparr>generation := g, live_upper := u, live_work := v\<rparr>) = dirs st"
  by (simp_all add: dirs_def)

lemma dirs_new_generation: "new_generation_dirs st w = (st', w') \<Longrightarrow> dirs st' = dirs st"
  by (auto simp: new_generation_dirs_def Let_def)

lemma handle_commit_dirs: "handle_commit (st, gl, w) = (rc, (st', gl', w')) \<Longrightarrow> dirs st' = dirs st"
  by (auto simp: handle_commit_def Let_def split: prod.splits if_splits dest!: dirs_new_generation)

lemma handle_rollback_dirs: "handle_rollback t (st, gl, w) = (rc, (st', gl', w')) \<Longrightarrow> dirs st' = dirs st"
  by (auto simp: handle_rollback_def Let_def split: prod.splits if_splits dest!: dirs_new_generation)

lemma handle_checkpoint_dirs: "handle_checkpoint t (st, gl, w) = (r, (st', gl', w')) \<Longrightarrow> dirs st' = dirs st"
  by (auto simp: handle_checkpoint_def Let_def split: prod.splits if_splits dest!: dirs_new_generation)


text \<open>The demo sandbox, whose command has rewritten \<open>a\<close> and removed \<open>d/f\<close>.\<close>

lemma demo_commit_ready:
  "commit_ready demo_state demo1" "no_whiteouts (tree demo1 (workspace_dir demo_state))"
  "list_all ordinary (layer_trees demo_state demo1)"
  by code_simp+



section \<open>Checkpoint\<close>

lemma ids_ok_next: "ids_ok st \<Longrightarrow> next_id st \<notin> ck_id ` set (checkpoints st)"
proof -
  assume "ids_ok st"
  then obtain ns where "map ck_id (checkpoints st) = map (gen_name ''ckpt-'') ns"
    "sorted_wrt (<) (ns @ [next_checkpoint_num st])"
    unfolding ids_ok_def by blast
  then have "ck_id ` set (checkpoints st) = gen_name ''ckpt-'' ` set ns" "next_checkpoint_num st \<notin> set ns"
    by (metis list.set_map, auto simp: sorted_wrt_append)
  then show ?thesis by (auto simp: next_id_def)
qed




section \<open>Rollback\<close>

lemma find_checkpoint_none: "find_checkpoint cs t 0 = -2 \<longleftrightarrow> t \<notin> ck_id ` set cs"
proof -
  have "0 \<le> k \<Longrightarrow> find_checkpoint cs t k = -2 \<longleftrightarrow> t \<notin> ck_id ` set cs" for k
  proof (induction cs arbitrary: k)
    case (Cons c cs)
    have "0 \<le> k + 1" using Cons.prems by simp
    from Cons.IH [OF this] Cons.prems show ?case by auto
  qed simp
  then show ?thesis by simp
qed

text \<open>Which prefix of the table a target keeps.\<close>

definition keeps :: "string option \<Rightarrow> checkpoint list \<Rightarrow> checkpoint list \<Rightarrow> bool" where
  "keeps target kept later \<longleftrightarrow>
     (if target = None \<or> target = Some [] then later = [] else kept \<noteq> [] \<and> target = Some (ck_id (last kept)))"

lemma keeps_index:
  assumes "checkpoints st = kept @ later" "keeps target kept later" "distinct (map ck_id (checkpoints st))"
  shows "rollback_index target st = int (length kept) - 1"
proof (cases "target = None \<or> target = Some []")
  case True
  then show ?thesis using assms(1,2) by (auto simp: rollback_index_def keeps_def checkpoint_count_def)
next
  case False
  then have t: "kept \<noteq> []" "target = Some (ck_id (last kept))" "target \<noteq> Some []"
    using assms(2) unfolding keeps_def by metis+
  then obtain cs c where k: "kept = cs @ [c]" "target = Some (ck_id c)" "ck_id c \<noteq> []"
    by (cases kept rule: rev_cases) simp_all
  have "map ck_id (checkpoints st) = map ck_id cs @ ck_id c # map ck_id later" "ck_id c \<notin> set (map ck_id cs)"
    using assms(1,3) k(1) by auto
  from find_checkpoint_at [OF this, of 0] show ?thesis using k by (simp add: rollback_index_def)
qed

text \<open>The layers below the live one are directories.\<close>

lemma stack_top_dir:
  assumes "sandbox_inv st w" "checkpoints st = kept @ later"
  shows "is_dir (hd (rev (map (\<lambda>c. tree w (ck_layer_dir c)) kept) @ [tree w (workspace_dir st)]))"
proof (cases kept rule: rev_cases)
  case Nil
  then show ?thesis using assms(1) dir_at_tree by (simp add: sandbox_inv_def places_ok_def)
next
  case (snoc cs c)
  obtain gs where gs: "map ck_layer_dir (checkpoints st) = map (gen_path st ''upper_'') gs"
    "\<forall>g \<in> set gs. dir_at (fs w) (rt st @ [gen_name ''upper_'' g])"
    using assms(1) unfolding sandbox_inv_def layers_ok_def by blast
  have "ck_layer_dir c \<in> set (map (gen_path st ''upper_'') gs)"
    unfolding gs(1) [symmetric] using assms(2) snoc by simp
  then obtain g where "g \<in> set gs" "ck_layer_dir c = gen_path st ''upper_'' g" by auto
  then have "dir_at (fs w) (comps (ck_layer_dir c))" using gs(2) by simp
  then show ?thesis using dir_at_tree snoc by simp
qed


lemma demo_keeps: "checkpoints demo_state2 = checkpoints demo_state2 @ []" "keeps None (checkpoints demo_state2) []"
  by (simp_all add: keeps_def)

lemma demo_inv2: "sandbox_inv demo_state2 (demo2 demo_dir)"
  using step_refines [OF sup_step.checkpoint [OF demo_counters demo_checkpoint] demo_inv] by simp

lemma demo_counters2: "counters_ok demo_state2"
  by (simp add: counters_ok_def demo_state2_def)

lemma demo_view_d: "overlay_view (rev (map (\<lambda>c. tree (demo2 demo_dir) (ck_layer_dir c)) (checkpoints demo_state2))
    @ [tree (demo2 demo_dir) (workspace_dir demo_state2)]) [''a''] = Some (CReg ''z'')"
  by code_simp



section \<open>Every run\<close>

lemma steps_inv:
  "sup_steps e e' \<Longrightarrow> e = (st, gl, w) \<Longrightarrow> sandbox_inv st w \<Longrightarrow> e' = (st', gl', w') \<Longrightarrow> sandbox_inv st' w'"
proof (induction arbitrary: st' gl' w' rule: sup_steps.induct)
  case (more e e1 e2)
  obtain st1 gl1 w1 where e1: "e1 = (st1, gl1, w1)" by (cases e1) auto
  have "sandbox_inv st1 w1" using more.IH [OF more.prems(1,2) e1] .
  then show ?case using step_refines [of st1 gl1 w1 st' gl' w'] more.hyps(2) more.prems(3) e1 by simp
qed simp




section \<open>The overlay that is mounted\<close>

text \<open>
  C26: The buffer for the lower stack is sized exactly: it receives all layers, newest first, and
  the workspace, and the offset never leaves it.
\<close>

theorem lower_stack_exact:
  "build_lower_stack st (lower_stack_len st)
     = Some (concat (map (\<lambda>c. ck_layer_dir c @ '':'') (rev (checkpoints st))) @ workspace_dir st)
   \<and> lower_stack_len st
     = length (concat (map (\<lambda>c. ck_layer_dir c @ '':'') (rev (checkpoints st))) @ workspace_dir st) + 1"
  using build_lower_stack_fits [of st] lower_stack_len_alt [of st] by (simp add: stack_text_def rev_map o_def)

text \<open>
  C10: When a checkpoint, a rollback or a commit reports success, the newest mount is an overlay on
  the merged directory whose lower layers are the table's, newest first, over the workspace, and
  whose upper and work directory are the live ones.
\<close>

theorem success_mounts_current_stack:
  assumes "handle_checkpoint tag (st, gl, w) = (Inr i, (st', gl', w'))
    \<or> handle_rollback target (st, gl, w) = (AGENTBOX_OK, (st', gl', w'))
    \<or> handle_commit (st, gl, w) = (AGENTBOX_OK, (st', gl', w'))"
  shows "\<exists>ms. mtab w' = (merged_dir st',
      mount_opts (concat (map (\<lambda>c. ck_layer_dir c @ '':'') (rev (checkpoints st'))) @ workspace_dir st')
        (live_upper st') (live_work st')) # ms"
proof -
  have "\<exists>w1. remount_current st' w1 = (AGENTBOX_OK, w')"
    using assms by (auto simp: handle_checkpoint_def handle_rollback_def handle_commit_def Let_def
        split: prod.splits if_splits)
  then show ?thesis by (auto dest!: remount_mounts simp: current_opts_def stack_text_def rev_map o_def)
qed

lemma success_mounts_current_stack_witness:
  "\<exists>ms. mtab (demo2 demo_dir) = (''/rt/merged'',
     ''lowerdir=/rt/upper_1:/ws,upperdir=/rt/upper_2,workdir=/rt/work_2,userxattr'') # ms"
  using success_mounts_current_stack [OF disjI1 [OF demo_checkpoint]]
  by (simp add: demo_state2_def mount_opts_def)


section \<open>Diff\<close>

lemma layers_named:
  assumes "sandbox_inv st w"
  shows "list_all2 (layer_named w) (all_layers st) (layer_trees st w)"
proof -
  have p: "places_ok st w" "layers_ok st w" using assms by (simp_all add: sandbox_inv_def)
  obtain gs where gs: "map ck_layer_dir (checkpoints st) = map (gen_path st ''upper_'') gs"
    "gens_ok st (gs @ [generation st]) w" "live_upper st = gen_path st ''upper_'' (generation st)"
    by (rule layers_okE [OF p(2)])
  have "layer_named w (gen_path st ''upper_'' g) (tree w (gen_path st ''upper_'' g))" if "g \<in> set (gs @ [generation st])" for g
    using gs(2) that p(1) dir_at_tree [of w "gen_path st ''upper_'' g"]
    by (auto simp: layer_named_def gens_ok_def places_ok_def)
  then have "list_all2 (layer_named w) (map (gen_path st ''upper_'') gs')
      (map (\<lambda>g. tree w (gen_path st ''upper_'' g)) gs')" if "set gs' \<subseteq> set (gs @ [generation st])" for gs'
    using that by (induction gs') auto
  from this [of "gs @ [generation st]"] show ?thesis
    using layer_trees_gens [OF gs(1,3), of w] by simp
qed



end
