(* ===== verification/Failures.thy ===== *)
theory Failures
  imports Guarantees
begin

text \<open>
  The error paths of the handlers: what a refused unmount, an unknown id, a full table, a lower
  stack too long for the mount options and a layer that cannot be replayed leave behind.
\<close>

section \<open>A refused unmount\<close>

text \<open>
  C30: When the kernel refuses to take the overlay away, checkpoint, rollback and commit report a
  failed mount and change nothing, neither the tree nor the table.
\<close>

theorem refused_unmount_changes_nothing:
  assumes "refuse w SysUmount (merged_dir st) = Some e" "e \<noteq> EINVAL"
    and "checkpoint_count st < AGENTBOX_MAX_CHECKPOINTS" "rollback_index target st \<noteq> -2"
  shows "handle_checkpoint tag (st, gl, w) = (Inl AGENTBOX_ERR_MOUNT_FAILED, (st, gl, w))
    \<and> handle_rollback target (st, gl, w) = (AGENTBOX_ERR_MOUNT_FAILED, (st, gl, w))
    \<and> handle_commit (st, gl, w) = (AGENTBOX_ERR_MOUNT_FAILED, (st, gl, w))"
proof -
  have un: "agentbox_cow_unmount (merged_dir st) w = (AGENTBOX_ERR_MOUNT_FAILED, w)"
    using assms(1,2) by (simp add: agentbox_cow_unmount_def sys_umount2_def)
  then have "handle_checkpoint tag (st, gl, w) = (Inl AGENTBOX_ERR_MOUNT_FAILED, (st, gl, w))"
    using assms(3) by (simp add: handle_checkpoint_def)
  moreover have "handle_rollback target (st, gl, w) = (AGENTBOX_ERR_MOUNT_FAILED, (st, gl, w))"
    using un assms(4) unfolding rollback_index_def by (simp add: handle_rollback_def Let_def)
  moreover have "handle_commit (st, gl, w) = (AGENTBOX_ERR_MOUNT_FAILED, (st, gl, w))"
    using un by (simp add: handle_commit_def)
  ultimately show ?thesis by blast
qed

definition demo_stuck :: world where
  "demo_stuck = demo1\<lparr>refuse := (\<lambda>op s. if op = SysUmount then Some EPERM else None)\<rparr>"

lemma refused_unmount_changes_nothing_witness:
  "handle_commit (demo_state, demo_globals, demo_stuck) = (AGENTBOX_ERR_MOUNT_FAILED, (demo_state, demo_globals, demo_stuck))"
proof -
  have "refuse demo_stuck SysUmount (merged_dir demo_state) = Some EPERM" "EPERM \<noteq> EINVAL"
    "checkpoint_count demo_state < AGENTBOX_MAX_CHECKPOINTS" "rollback_index None demo_state \<noteq> -2"
    by code_simp+
  from refused_unmount_changes_nothing [OF this] show ?thesis by simp
qed


section \<open>Unknown ids and the full table\<close>

lemma unmount_codes: "fst (agentbox_cow_unmount m w) \<in> {AGENTBOX_OK, AGENTBOX_ERR_MOUNT_FAILED}"
  by (auto simp: agentbox_cow_unmount_def split: prod.split option.split)

lemma mount_codes:
  "fst (agentbox_cow_mount l u k m w) \<in> {AGENTBOX_OK, AGENTBOX_ERR_MOUNT_FAILED, AGENTBOX_ERR_INVALID_ARGUMENT}"
  by (auto simp: agentbox_cow_mount_def Let_def split: prod.splits option.splits)

lemma remount_codes:
  "fst (remount_current st w)
     \<in> {AGENTBOX_OK, AGENTBOX_ERR_GENERIC, AGENTBOX_ERR_MOUNT_FAILED, AGENTBOX_ERR_INVALID_ARGUMENT}"
proof (cases "build_lower_stack st (lower_stack_len st)")
  case (Some stack)
  then show ?thesis using mount_codes [of stack "live_upper st" "live_work st" "merged_dir st" w]
    by (auto simp: remount_current_def)
qed (simp add: remount_current_def)

text \<open>
  C31: A rollback that names an id answers "checkpoint not found" exactly when the table has no such
  id, and then it has changed nothing, not even the mount.
\<close>

theorem rollback_needs_known_id:
  assumes "i \<noteq> []"
  shows "(fst (handle_rollback (Some i) (st, gl, w)) = AGENTBOX_ERR_CHECKPOINT_NOT_FOUND
        \<longleftrightarrow> i \<notin> ck_id ` set (checkpoints st))
    \<and> (i \<notin> ck_id ` set (checkpoints st) \<longrightarrow> snd (handle_rollback (Some i) (st, gl, w)) = (st, gl, w))"
proof (cases "i \<in> ck_id ` set (checkpoints st)")
  case True
  then have f: "find_checkpoint (checkpoints st) i 0 \<noteq> -2" by (simp add: find_checkpoint_none)
  obtain rc st' gl' w' where r: "handle_rollback (Some i) (st, gl, w) = (rc, (st', gl', w'))" by (metis prod.exhaust)
  have "(\<exists>m. rc = fst (agentbox_cow_unmount m w)) \<or> (\<exists>st1 w1. rc = fst (remount_current st1 w1))"
    using r assms f by (auto simp: handle_rollback_def Let_def split: prod.splits if_splits) (metis fst_conv)+
  then have "rc \<noteq> AGENTBOX_ERR_CHECKPOINT_NOT_FOUND"
  proof (elim disjE exE)
    show "rc \<noteq> AGENTBOX_ERR_CHECKPOINT_NOT_FOUND" if "rc = fst (agentbox_cow_unmount m w)" for m
      using that unmount_codes [of m w] by auto
    show "rc \<noteq> AGENTBOX_ERR_CHECKPOINT_NOT_FOUND" if "rc = fst (remount_current st1 w1)" for st1 w1
      using that remount_codes [of st1 w1] by auto
  qed
  then show ?thesis using True r by simp
next
  case False
  then have "rollback_index (Some i) st = -2" using assms by (simp add: rollback_index_def find_checkpoint_none)
  from rollback_unknown [OF this] False show ?thesis by simp
qed

lemma rollback_needs_known_id_witness:
  "fst (handle_rollback (Some ''ckpt-7'') (demo_state2, demo_globals, demo2 demo_dir)) = AGENTBOX_ERR_CHECKPOINT_NOT_FOUND
   \<and> fst (handle_rollback (Some ''ckpt-0'') (demo_state2, demo_globals, demo2 demo_dir)) \<noteq> AGENTBOX_ERR_CHECKPOINT_NOT_FOUND"
  using rollback_needs_known_id [of "''ckpt-7''" demo_state2 demo_globals "demo2 demo_dir"]
    rollback_needs_known_id [of "''ckpt-0''" demo_state2 demo_globals "demo2 demo_dir"]
  by (simp add: demo_state2_def)


section \<open>More layers than the mount options hold\<close>

text \<open>A purge changes the tree and nothing else of the world.\<close>

definition same_kernel :: "world \<Rightarrow> world \<Rightarrow> bool" where
  "same_kernel w w' \<longleftrightarrow> w' = w\<lparr>fs := fs w'\<rparr>"

lemma same_kernel_refl [simp]: "same_kernel w w" "same_kernel w (w\<lparr>fs := t\<rparr>)"
  by (simp_all add: same_kernel_def)

lemma same_kernel_trans: "same_kernel w w' \<Longrightarrow> same_kernel w' w'' \<Longrightarrow> same_kernel w w''"
  unfolding same_kernel_def by (cases w, cases w', cases w'') simp

lemma same_kernel_fields: "same_kernel w w' \<Longrightarrow> mtab w' = mtab w \<and> mem w' = mem w"
  unfolding same_kernel_def by (cases w, cases w') simp

lemma entry_call_kernel: "same_kernel w (snd (entry_call op s answer w))"
  by (simp add: entry_call_def split: option.split sum.split)

lemma purge_visit_kernel: "same_kernel w (snd (purge_visit s sb fl w))"
proof -
  have "snd (purge_visit s sb fl w) = snd (sys_rmdir s w) \<or> snd (purge_visit s sb fl w) = snd (sys_unlink s w)"
    by (simp add: purge_visit_def split: prod.split option.split)
  moreover have "same_kernel w (snd (sys_rmdir s w))" "same_kernel w (snd (sys_unlink s w))"
    by (simp_all only: sys_unlink_def sys_rmdir_def entry_call_kernel)
  ultimately show ?thesis by (elim disjE) simp_all
qed

lemma purge_walk_kernel: "same_kernel w (snd (until_nonzero (ftw_call purge_visit) evs w))"
proof (rule until_nonzero_invariant)
  show "same_kernel w (snd (ftw_call purge_visit ev v))" if "same_kernel w v" for ev v
  proof (cases ev)
    case (Visit s sb fl)
    then show ?thesis using same_kernel_trans [OF that purge_visit_kernel] by simp
  next
    case Abort
    then show ?thesis using that by simp
  qed
qed simp

lemma purge_kernel: "same_kernel w (snd (agentbox_cow_purge d w))"
proof -
  have "same_kernel w (snd (nftw w True purge_visit d w))"
    by (simp add: nftw_def purge_walk_kernel split: sum.split)
  moreover have "same_kernel w (snd (sys_unlink d w))" by (simp only: sys_unlink_def entry_call_kernel)
  ultimately show ?thesis
    by (simp add: agentbox_cow_purge_def prod.case_eq_if split: option.split sum.split)
qed

lemma new_generation_kernel: "new_generation_dirs st w = (st', w') \<Longrightarrow>
  same_kernel w w' \<and> checkpoints st' = checkpoints st \<and> merged_dir st' = merged_dir st \<and> workspace_dir st' = workspace_dir st"
proof -
  have k: "same_kernel v (snd (sys_mkdir s m v))" for s m v by (simp only: sys_mkdir_def entry_call_kernel)
  show "new_generation_dirs st w = (st', w') \<Longrightarrow> ?thesis"
    using k same_kernel_trans [OF k k] by (auto simp: new_generation_dirs_def Let_def)
qed

text \<open>
  C36: Once the names of the sealed layers reach \<^verbatim>\<open>PATH_MAX * 4\<close> bytes, a checkpoint below the limit
  of 256 fails with "invalid argument": the mount options no longer fit their buffer. The entry is
  in the table all the same, and the overlay, unmounted at the start, is not mounted again.
\<close>

theorem checkpoint_fails_on_long_stack:
  assumes "checkpoint_count st < AGENTBOX_MAX_CHECKPOINTS" "\<forall>n. mem w n"
    and "agentbox_cow_unmount (merged_dir st) w = (AGENTBOX_OK, w1)"
    and "PATH_MAX * 4 \<le> (\<Sum>c\<leftarrow>checkpoints st. length (ck_layer_dir c) + 1)"
    and "handle_checkpoint tag (st, gl, w) = (r, (st', gl', w'))"
  shows "r = Inl AGENTBOX_ERR_INVALID_ARGUMENT \<and> checkpoint_count st' = checkpoint_count st + 1 \<and> mtab w' = mtab w1"
proof -
  let ?c = "\<lparr>ck_id = snprintf AGENTBOX_ID_LEN (''ckpt-'' @ dec_of_int (next_checkpoint_num st)),
      ck_tag = snprintf AGENTBOX_TAG_LEN tag, ck_layer_dir = snprintf AGENTBOX_PATH_LEN (live_upper st),
      ck_created_at_ms = now_ms w1\<rparr>"
  let ?st1 = "st\<lparr>next_checkpoint_num := next_checkpoint_num st + 1, checkpoints := checkpoints st @ [?c]\<rparr>"
  let ?w2 = "snd (agentbox_cow_purge (live_work st) w1)"
  obtain st2 w3 where ng: "new_generation_dirs ?st1 ?w2 = (st2, w3)" by fastforce
  have k3: "same_kernel w1 w3" using same_kernel_trans [OF purge_kernel] new_generation_kernel [OF ng] by blast
  have "mem w1 = mem w" using unmount_world [OF assms(3)] by (cases w, cases w1) simp
  then have m: "mem w3 n" for n using assms(2) same_kernel_fields [OF k3] by simp
  have cs: "checkpoints st2 = checkpoints st @ [?c]" using new_generation_kernel [OF ng] by simp
  have "length (current_opts st2) \<ge> (\<Sum>c\<leftarrow>checkpoints st2. length (ck_layer_dir c) + 1)"
    using lower_stack_len_alt [of st2] by (simp add: current_opts_def mount_opts_def lower_stack_len_def)
  then have "PATH_MAX * 4 \<le> length (current_opts st2)" using assms(4) by (simp add: cs)
  then have "remount_current st2 w3 = (AGENTBOX_ERR_INVALID_ARGUMENT, w3)"
    using m by (simp add: remount_current_def build_lower_stack_fits agentbox_cow_mount_def current_opts_def Let_def)
  then have "handle_checkpoint tag (st, gl, w) = (Inl AGENTBOX_ERR_INVALID_ARGUMENT, (st2, gl, w3))"
    using assms(1,3) ng by (simp add: handle_checkpoint_def Let_def)
  then show ?thesis
    using assms(5) same_kernel_fields [OF k3] by (auto simp: checkpoint_count_def cs)
qed

text \<open>A table of 253 layers with names of 64 bytes.\<close>

definition demo_full :: supervisor_state where
  "demo_full = demo_state2\<lparr>checkpoints := replicate 253 \<lparr>ck_id = ''ckpt-0'', ck_tag = [],
     ck_layer_dir = replicate 64 (CHR ''x''), ck_created_at_ms = 0\<rparr>\<rparr>"

lemma checkpoint_fails_on_long_stack_witness:
  "fst (handle_checkpoint ''t'' (demo_full, demo_globals, demo2 demo_dir)) = Inl AGENTBOX_ERR_INVALID_ARGUMENT"
proof -
  have pre: "checkpoint_count demo_full < AGENTBOX_MAX_CHECKPOINTS"
    "PATH_MAX * 4 \<le> (\<Sum>c\<leftarrow>checkpoints demo_full. length (ck_layer_dir c) + 1)"
    by (simp_all add: demo_full_def checkpoint_count_def buffer_sizes sum_list_replicate map_replicate_const)
  have m: "\<forall>n. mem (demo2 demo_dir) n" by (simp add: demo2_def demo_world_def)
  have un: "agentbox_cow_unmount (merged_dir demo_full) (demo2 demo_dir) = (AGENTBOX_OK, (demo2 demo_dir)\<lparr>mtab := []\<rparr>)"
    by (simp add: demo_full_def demo_state2_def agentbox_cow_unmount_def sys_umount2_def demo2_def demo_world_def)
  obtain r st gl w where h: "handle_checkpoint ''t'' (demo_full, demo_globals, demo2 demo_dir) = (r, (st, gl, w))"
    by (metis prod.exhaust)
  show ?thesis using checkpoint_fails_on_long_stack [OF pre(1) m un pre(2) h] h by simp
qed


section \<open>A layer that cannot be replayed\<close>

text \<open>
  C40: Copying a file of a layer onto a directory of the workspace fails and leaves the directory as
  it is: \<^verbatim>\<open>unlink\<close> does not remove a directory, and its result is not looked at.
\<close>

theorem copy_keeps_directory:
  assumes "quiet w" "names w dst p" "dir_at (fs w) p"
  shows "copy_regular_file src dst m w = (AGENTBOX_ERR_IO, w)"
proof -
  obtain m' x es where d: "lookup (fs w) p = Some (Dir m' x es)" using assms(3) by (rule dir_atE)
  then have "sys_unlink dst w = (Some EISDIR, w)" using sys_unlink_names [OF assms(1,2)] by simp
  moreover have "resolve w True dst = Inr p" using resolve_names_follow [OF assms(2)] d by simp
  ultimately show ?thesis using assms(1) d
    by (simp add: copy_regular_file_def sys_open_write_def split: sum.split)
qed

lemma copy_keeps_directory_witness:
  "copy_regular_file ''/rt/upper_1/a'' ''/ws/d'' 420 demo1 = (AGENTBOX_ERR_IO, demo1)"
  by (rule copy_keeps_directory [of _ _ "[''ws'', ''d'']"])
    (simp add: demo1_def, code_simp+)

text \<open>
  The walk over a layer whose root has a file where the target has a directory: the entries before
  it are replayed, and there it stops.
\<close>

lemma lookup_graft_all_other: "n \<notin> fst ` set es \<Longrightarrow> lookup (graft_all um es d) [n] = lookup d [n]"
proof (induction es arbitrary: d)
  case (Cons e es)
  obtain k c where e: "e = (k, c)" by fastforce
  then have "k \<noteq> n" using Cons.prems by auto
  then show ?case using e Cons graft_other [of k n um c d "[]"] by (simp del: lookup.simps graft.simps)
qed simp

lemma ftw_entries_append: "ftw_entries rf dp s (xs @ ys) = ftw_entries rf dp s xs @ ftw_entries rf dp s ys"
  by (induction xs) auto

lemma fits_all_append: "fits_all k (xs @ ys) \<longleftrightarrow> fits_all k xs \<and> fits_all k ys"
  by (induction xs) auto

lemma merge_stops_at_directory:
  assumes "quiet w" "wf_node (fs w)" "comps s = T" "list_all wf_name T" "lookup (fs w) T = Some d"
    and "is_dir d" "layer_at w T s lroot l" "entries l = es1 @ (n, Reg m c) # es2" "compat_all es1 (Some d)"
    and "dir_at d [n]"
    and "g_merge_layer_root g = lroot" "g_merge_target_root g = s"
  shows "nftw w False merge_visit lroot (g, w)
    = (-1, (g\<lparr>g_merge_error := AGENTBOX_ERR_IO\<rparr>, below T (graft_all (umask w) es1 d) w))"
proof -
  let ?L = "comps lroot" and ?es = "es1 @ (n, Reg m c) # es2"
  let ?d1 = "graft_all (umask w) es1 d"
  let ?w1 = "below T ?d1 w" and ?p = "lroot @ slashed ([] @ [n])"
  from assms(7,8) obtain mo x where l: "l = Dir mo x ?es" "lookup (fs w) ?L = Some (Dir mo x ?es)"
    by (auto simp: layer_at_def elim!: is_dirE)
  have L: "list_all wf_name ?L" "?L \<parallel> T" "fits_all (length s) ?es"
    using assms(7) l by (auto simp: layer_at_def)
  have mrg: "merging lroot ?L s T [] g w" using assms l L by (auto simp: merging_def dir_at_def)
  have "names w lroot ?L" using L parallel_nonempty [OF L(2)] l(2) by (auto intro: names_dir)
  then have st: "sys_lstat lroot w = Inr (Dir mo x ?es)" using assms(1) l(2) by (simp add: quiet_lstat)
  have root: "merge_visit lroot (stat_of (Dir mo x ?es)) FTW_D (g, w) = (0, (g, w))"
    using assms(11) by (simp add: merge_visit_def rel_from_layer_def strncmp_eq_def)
  have wf: "wf_entries ?es" using wf_node_lookup [OF assms(2) l(2)] by simp
  then have wf1: "wf_entries es1" "n \<notin> fst ` set es1" "wf_name n" by (auto simp: wf_entries_iff)
  have kids: "lookup (fs w) (?L @ [] @ [k]) = Some e" if "(k, e) \<in> set ?es" for k e
  proof -
    have "map_of ?es k = Some e" using wf_entries_distinct [OF wf] that by (rule map_of_is_SomeI)
    then have "lookup (Dir mo x ?es) [k] = Some e" by (simp only: lookup.simps entries.simps option.case)
    then show ?thesis using lookup_child [OF l(2), of k] by simp
  qed
  have first: "until_nonzero (ftw_call merge_visit) (ftw_entries (refuse w) False (lroot @ slashed []) es1) (g, w)
      = (0, (g, below (T @ []) ?d1 w))"
    using assms(5,9) L(3) wf1 kids by (intro merge_entries [OF mrg]) (auto simp: fits_all_append)
  have d1: "is_dir ?d1" "wf_node ?d1"
    using assms(6) wf_graft_all [OF wf1(1) wf_node_lookup [OF assms(2,5)]] by simp_all
  have mrg1: "merging lroot ?L s T [] g ?w1"
    using merging_put [OF mrg, of ?d1] d1 by (simp add: below_def)
  have T: "T \<noteq> []" using merging_facts(3) [OF mrg] by simp
  have at: "at_entry lroot ?L s T [] g ?w1 n ?d1"
    using mrg1 wf1(3) L(3) lookup_put_exists [OF assms(5) T] by (simp add: at_entry_def fits_all_append)
  have "dir_at (fs ?w1) (T @ [] @ [n])"
    using target_entry [OF at] lookup_graft_all_other [OF wf1(2), of "umask w" d] assms(10)
    by (simp add: dir_at_def del: lookup.simps)
  note cp = copy_keeps_directory [OF merging_facts(1) [OF mrg1] target_names [OF at] this]
  have v: "merge_visit ?p (stat_of (Reg m c)) FTW_F (g, ?w1) = (-1, (g\<lparr>g_merge_error := AGENTBOX_ERR_IO\<rparr>, ?w1))"
    unfolding visit_target [OF at] Let_def cp by (simp add: is_whiteout_def del: slashed_simps)
  show ?thesis
    using st root first v assms(1)
    by (simp add: nftw_def ftw_entries_append until_nonzero_append_ok Let_def)
qed

text \<open>
  C34: Replacing a directory of the workspace by a file is something the processes in the sandbox
  see, and a commit of it fails with an I/O error. The workspace then has the changes that come
  before it in the layer and not the replacement, while the table and the layers are as they were.
\<close>

theorem commit_stops_at_replaced_directory:
  assumes "sandbox_inv st w" "checkpoints st = []"
    and "entries (tree w (live_upper st)) = es1 @ (n, Reg m c) # es2"
    and "compat_all es1 (Some (tree w (workspace_dir st)))" "dir_at (tree w (workspace_dir st)) [n]"
    and "fits_all (length (workspace_dir st)) (entries (tree w (live_upper st)))"
    and "handle_commit (st, gl, w) = (rc, (st', gl', w'))"
  shows "sandbox_view (abs_sandbox st w) [n] = Some (CReg c) \<and> rc = AGENTBOX_ERR_IO \<and> st' = st
    \<and> tree w' (workspace_dir st) = graft_all (umask w) es1 (tree w (workspace_dir st))
    \<and> view (tree w' (workspace_dir st)) [n] = Some CDir
    \<and> tree w' (live_upper st) = tree w (live_upper st)"
proof -
  let ?d = "tree w (workspace_dir st)" and ?l = "tree w (live_upper st)"
  let ?d1 = "graft_all (umask w) es1 ?d"
  have p: "places_ok st w" "layers_ok st w" using assms(1) by (simp_all add: sandbox_inv_def)
  have l: "lookup (fs w) (comps (live_upper st)) = Some ?l" "is_dir ?l"
    using p(2) dir_at_tree [of w "live_upper st"] by (simp_all add: layers_ok_def)
  have d: "lookup (fs w) (ws st) = Some ?d" "is_dir ?d"
    using p(1) dir_at_tree [of w "workspace_dir st"] by (simp_all add: places_ok_def)
  have lw: "comps (live_upper st) = rt st @ [gen_name ''upper_'' (generation st)]"
    using p(2) by (simp add: layers_ok_def)
  have la: "layer_at w (ws st) (workspace_dir st) (live_upper st) ?l"
    using p(1) l assms(6) rt_ws_parallel [OF p(1)] by (simp add: layer_at_def lw places_ok_def)
  obtain mt where un: "agentbox_cow_unmount (merged_dir st) w = (AGENTBOX_OK, w\<lparr>mtab := mt\<rparr>)"
    by (rule unmount_ok [OF p(1)])
  let ?w1 = "w\<lparr>mtab := mt\<rparr>" and ?g1 = "gl\<lparr>g_merge_layer_root := live_upper st,
    g_merge_target_root := workspace_dir st, g_merge_error := AGENTBOX_OK\<rparr>"
  have "nftw ?w1 False merge_visit (live_upper st) (?g1, ?w1)
      = (-1, (?g1\<lparr>g_merge_error := AGENTBOX_ERR_IO\<rparr>, below (ws st) (graft_all (umask ?w1) es1 ?d) ?w1))"
    using p(1) d assms(4,5) la
    by (intro merge_stops_at_directory [OF _ _ refl _ _ _ _ assms(3)]) (simp_all add: places_ok_def layer_at_def)
  then have "handle_commit (st, gl, w) = (AGENTBOX_ERR_IO, (st, ?g1\<lparr>g_merge_error := AGENTBOX_ERR_IO\<rparr>,
      snd (remount_current st (below (ws st) ?d1 ?w1))))"
    using un assms(2) by (simp add: handle_commit_def all_layers_def)
  then have r: "rc = AGENTBOX_ERR_IO" "st' = st" "w' = snd (remount_current st (below (ws st) ?d1 ?w1))"
    using assms(7) by simp_all
  obtain m2 where w': "w' = (below (ws st) ?d1 ?w1)\<lparr>mtab := m2\<rparr>"
    using remount_world r(3) by (metis prod.collapse)
  have "wf_entries (es1 @ (n, Reg m c) # es2)"
    using wf_tree [of w "live_upper st"] p(1) l(2) assms(3) by (auto simp: places_ok_def elim!: is_dirE)
  then have es1: "wf_entries es1" "n \<notin> fst ` set es1" by (auto simp: wf_entries_iff)
  have d1: "is_dir ?d1" "wf_node ?d1"
    using d(2) wf_graft_all [OF es1(1) wf_tree] p(1) by (simp_all add: places_ok_def)
  have t: "tree w' (workspace_dir st) = ?d1"
    using below_ws(4) [of st ?w1, OF _ d1(2,1)] p(1) by (simp add: w')
  have u: "tree w' (live_upper st) = ?l"
    using below_ws(3) [of st ?w1, OF _ d1(2,1)] p by (simp add: w' layers_ok_def)
  have "view ?d1 [n] = Some CDir"
    using lookup_graft_all_other [OF es1(2), of "umask w" ?d] assms(5)
    by (auto simp: view_def dir_at_def simp del: lookup.simps split: option.splits)
  moreover have "map_of es1 n = None" using es1(2) by (simp only: map_of_eq_None_iff simp_thms)
  then have "map_of (entries ?l) n = Some (Reg m c)" using assms(3) by (simp add: map_add_def)
  then have "sandbox_view (abs_sandbox st w) [n] = Some (CReg c)"
    using l(2) assms(2) by (simp add: sandbox_view_def abs_sandbox_def whiteout_def)
  ultimately show ?thesis using r t u by simp
qed

text \<open>In the demo, a command has written \<open>a\<close> and replaced the directory \<open>d\<close> by a file.\<close>

definition demo_replaced :: node where
  "demo_replaced = Dir 448 [] [(''a'', Reg 420 ''new''), (''d'', Reg 420 ''file'')]"

definition demo_blocked :: world where
  "demo_blocked = demo_world [(''merged'', demo_dir), (''upper_1'', demo_replaced), (''work_1'', demo_dir)]"

lemma demo_blocked_inv: "sandbox_inv demo_state demo_blocked"
  by (simp add: sandbox_inv_def places_ok_def layers_ok_def ids_ok_def demo_defs demo_blocked_def demo_replaced_def
      quiet_def demo_comps parallel_def prefix_def dir_at_def wf_name_def no_nul_def dec_is_one gen_name_def
      gen_path_def dec_one)

lemma commit_stops_at_replaced_directory_witness:
  "(case handle_commit (demo_state, demo_globals, demo_blocked) of (rc, st, gl, w) \<Rightarrow>
     rc = AGENTBOX_ERR_IO \<and> tree w ''/ws'' = Dir 493 [] [(''d'', Dir 493 [] [(''f'', Reg 420 ''y'')]), (''a'', Reg 420 ''new'')])"
proof -
  obtain rc st gl w where h: "handle_commit (demo_state, demo_globals, demo_blocked) = (rc, (st, gl, w))"
    by (metis prod.exhaust)
  have pre: "checkpoints demo_state = []"
    "entries (tree demo_blocked (live_upper demo_state)) = [(''a'', Reg 420 ''new'')] @ (''d'', Reg 420 ''file'') # []"
    "compat_all [(''a'', Reg 420 ''new'')] (Some (tree demo_blocked (workspace_dir demo_state)))"
    "dir_at (tree demo_blocked (workspace_dir demo_state)) [''d'']"
    "fits_all (length (workspace_dir demo_state)) (entries (tree demo_blocked (live_upper demo_state)))"
    by code_simp+
  have "graft_all (umask demo_blocked) [(''a'', Reg 420 ''new'')] (tree demo_blocked (workspace_dir demo_state))
      = Dir 493 [] [(''d'', Dir 493 [] [(''f'', Reg 420 ''y'')]), (''a'', Reg 420 ''new'')]"
    by code_simp
  then show ?thesis
    using commit_stops_at_replaced_directory [OF demo_blocked_inv pre h] h by (simp add: demo_state_def)
qed

end
