(* ===== verification/Wire.thy ===== *)
theory Wire
  imports CString
begin

text \<open>
  The wire protocol of \<^verbatim>\<open>src/c/agentbox_core.c\<close>: full reads and writes over a stream socket,
  frames with a 32-bit big-endian length, newline-separated fields and the three kinds of
  response.

  The kernel's side of a socket is a script: each entry answers one \<^verbatim>\<open>read\<close> or \<^verbatim>\<open>write\<close>, either
  with the number of bytes it is willing to move or with an \<^verbatim>\<open>errno\<close>. A call that runs out of
  script is still blocked, which is the result \<^const>\<open>None\<close>; so every theorem below that promises
  a result says how much script is enough for it.
\<close>

section \<open>Sockets\<close>

datatype sysret = Ret nat | Err errno

text \<open>
  \<open>sk_in\<close> holds the bytes the peer sends before it closes and that are still unread, \<open>sk_out\<close>
  the bytes written so far.
\<close>

record sock =
  sk_in :: bytes
  sk_out :: bytes
  sk_rd :: "sysret list"
  sk_wr :: "sysret list"

text \<open>
  The loop of \<^verbatim>\<open>send_all\<close> on the part of the buffer not sent yet. The kernel never writes more
  than it is given, so an offer beyond the buffer counts as the whole rest.
\<close>

fun send_loop :: "sysret list \<Rightarrow> bytes \<Rightarrow> bytes \<Rightarrow> (int \<times> bytes \<times> sysret list) option" where
  "send_loop sc [] out = Some (0, out, sc)"
| "send_loop [] (b # bs) out = None"
| "send_loop (Err e # sc) (b # bs) out =
     (if e = EINTR then send_loop sc (b # bs) out else Some (-1, out, sc))"
| "send_loop (Ret n # sc) (b # bs) out = send_loop sc (drop n (b # bs)) (out @ take n (b # bs))"

definition send_all :: "sock \<Rightarrow> bytes \<Rightarrow> (int \<times> sock) option" where
  "send_all sk buf = (case send_loop (sk_wr sk) buf [] of
     None \<Rightarrow> None
   | Some (rc, out, sc) \<Rightarrow> Some (rc, sk\<lparr>sk_out := sk_out sk @ out, sk_wr := sc\<rparr>))"

text \<open>
  The loop of \<^verbatim>\<open>recv_all\<close> with \<open>k\<close> bytes still to read. A \<^verbatim>\<open>read\<close> that returns moves at least one
  byte unless the peer has closed, when it returns 0.
\<close>

fun recv_loop :: "sysret list \<Rightarrow> nat \<Rightarrow> bytes \<Rightarrow> bytes \<Rightarrow> (int \<times> bytes \<times> bytes \<times> sysret list) option" where
  "recv_loop sc 0 got inq = Some (0, got, inq, sc)"
| "recv_loop [] (Suc k) got inq = None"
| "recv_loop (Err e # sc) (Suc k) got inq =
     (if e = EINTR then recv_loop sc (Suc k) got inq else Some (-1, got, inq, sc))"
| "recv_loop (Ret n # sc) (Suc k) got inq =
     (if inq = [] then Some (-1, got, inq, sc)
      else let m = min (max 1 n) (Suc k)
           in recv_loop sc (Suc k - length (take m inq)) (got @ take m inq) (drop m inq))"

definition recv_all :: "sock \<Rightarrow> nat \<Rightarrow> (int \<times> bytes \<times> sock) option" where
  "recv_all sk k = (case recv_loop (sk_rd sk) k [] (sk_in sk) of
     None \<Rightarrow> None
   | Some (rc, got, inq, sc) \<Rightarrow> Some (rc, got, sk\<lparr>sk_in := inq, sk_rd := sc\<rparr>))"


section \<open>Frames\<close>

definition MAX_FRAME_LEN :: nat where "MAX_FRAME_LEN = 16 * 1024 * 1024"

text \<open>\<^verbatim>\<open>htonl\<close> and the four bytes it puts into memory; \<^verbatim>\<open>ntohl\<close> of four bytes read.\<close>

definition htonl_bytes :: "32 word \<Rightarrow> bytes" where
  "htonl_bytes w = map (\<lambda>k. char_of (unat w div 256 ^ k)) [3, 2, 1, 0]"

definition ntohl_bytes :: "bytes \<Rightarrow> 32 word" where
  "ntohl_bytes bs = word_of_nat (foldl (\<lambda>a c. a * 256 + of_char c) 0 bs)"

definition send_frame :: "sock \<Rightarrow> bytes \<Rightarrow> (int \<times> sock) option" where
  "send_frame sk payload =
     (case send_all sk (htonl_bytes (word_of_nat (length payload))) of
        None \<Rightarrow> None
      | Some (rc, sk1) \<Rightarrow>
          if rc \<noteq> 0 then Some (-1, sk1)
          else if payload = [] then Some (0, sk1)
          else (case send_all sk1 payload of
                  None \<Rightarrow> None
                | Some (rc2, sk2) \<Rightarrow> Some (if rc2 \<noteq> 0 then -1 else 0, sk2)))"

definition send_frame_str :: "sock \<Rightarrow> bytes \<Rightarrow> (int \<times> sock) option" where
  "send_frame_str sk s = send_frame sk (c_str s)"

text \<open>
  \<^verbatim>\<open>recv_frame\<close>: the inner \<^const>\<open>None\<close> is the NULL of the code (I/O error, peer gone, a length
  beyond the limit, no memory). \<open>mem n\<close> says whether \<^verbatim>\<open>malloc (n)\<close> succeeds.
\<close>

definition recv_frame :: "(nat \<Rightarrow> bool) \<Rightarrow> sock \<Rightarrow> (bytes option \<times> sock) option" where
  "recv_frame mem sk =
     (case recv_all sk 4 of
        None \<Rightarrow> None
      | Some (rc, hd4, sk1) \<Rightarrow>
          if rc \<noteq> 0 then Some (None, sk1)
          else let len = unat (ntohl_bytes hd4) in
            if len > MAX_FRAME_LEN then Some (None, sk1)
            else if \<not> mem (len + 1) then Some (None, sk1)
            else if len = 0 then Some (Some [], sk1)
            else (case recv_all sk1 len of
                    None \<Rightarrow> None
                  | Some (rc2, buf, sk2) \<Rightarrow> Some (if rc2 \<noteq> 0 then None else Some buf, sk2)))"

text \<open>
  \<^verbatim>\<open>next_field\<close> peels one field off the C string at the cursor. The cursor is the rest of the
  buffer, so that its distance from the start of the frame stays known.
\<close>

definition next_field :: "bytes \<Rightarrow> string \<times> bytes" where
  "next_field cur =
     (let start = c_str cur in
      if LF \<in> set start
      then let f = takeWhile (\<lambda>c. c \<noteq> LF) start in (f, drop (length f + 1) cur)
      else (start, drop (length start) cur))"


section \<open>Responses\<close>

definition ok_payload :: "string \<Rightarrow> bytes" where
  "ok_payload data = ''OK'' @ LF # data"

definition err_payload :: "errcode \<Rightarrow> string \<Rightarrow> bytes" where
  "err_payload code msg = snprintf 512 (''ERR'' @ LF # dec_of_int (errnum code) @ LF # msg)"

definition chunk_payload :: "bool \<Rightarrow> bytes \<Rightarrow> bytes" where
  "chunk_payload is_stderr data = ''CHUNK'' @ LF # (if is_stderr then CHR ''E'' else CHR ''O'') # LF # data"

text \<open>The three senders; none of them looks at the result of the write.\<close>

definition send_ok :: "sock \<Rightarrow> string \<Rightarrow> sock option" where
  "send_ok sk data = map_option snd (send_frame_str sk (ok_payload data))"

definition send_err :: "sock \<Rightarrow> errcode \<Rightarrow> string \<Rightarrow> sock option" where
  "send_err sk code msg = map_option snd (send_frame_str sk (err_payload code msg))"

definition send_chunk_to_client :: "bool \<Rightarrow> bytes \<Rightarrow> sock \<Rightarrow> sock option" where
  "send_chunk_to_client is_stderr data sk = map_option snd (send_frame sk (chunk_payload is_stderr data))"


section \<open>Full reads and writes\<close>

text \<open>
  A script is steady when the kernel only ever moves bytes or reports an interrupt; \<open>moves\<close>
  counts the answers that move something.
\<close>

fun moves :: "sysret list \<Rightarrow> nat" where
  "moves [] = 0"
| "moves (Ret 0 # sc) = moves sc"
| "moves (Ret (Suc n) # sc) = Suc (moves sc)"
| "moves (Err e # sc) = moves sc"

definition steady :: "sysret list \<Rightarrow> bool" where
  "steady sc \<longleftrightarrow> (\<forall>e. Err e \<in> set sc \<longrightarrow> e = EINTR)"

lemma steady_simps [simp]:
  "steady []" "steady (Ret n # sc) \<longleftrightarrow> steady sc" "steady (Err e # sc) \<longleftrightarrow> e = EINTR \<and> steady sc"
  by (auto simp: steady_def)

lemma moves_replicate: "moves (replicate n (Ret 1)) = n"
  by (induction n) simp_all

lemma steady_replicate: "steady (replicate n (Ret k))"
  by (simp add: steady_def)

lemma send_loop_prefix:
  "send_loop sc buf out = Some (rc, out', sc') \<Longrightarrow>
     \<exists>p. prefix p buf \<and> out' = out @ p \<and> (rc = 0 \<longleftrightarrow> p = buf) \<and> (rc = 0 \<or> rc = -1)"
proof (induction sc buf out rule: send_loop.induct)
  case (4 n sc b bs out)
  then obtain p where p: "prefix p (drop n (b # bs))" "out' = out @ take n (b # bs) @ p"
      "rc = 0 \<longleftrightarrow> p = drop n (b # bs)" "rc = 0 \<or> rc = -1"
    by auto
  let ?q = "take n (b # bs) @ p"
  have "prefix ?q (b # bs)"
    using p(1) by (metis append_take_drop_id same_prefix_prefix)
  moreover have "?q = b # bs \<longleftrightarrow> p = drop n (b # bs)"
    by (metis append_take_drop_id same_append_eq)
  ultimately show ?case using p by blast
qed (auto split: if_splits)

lemma send_loop_succeeds:
  "steady sc \<Longrightarrow> length buf \<le> moves sc \<Longrightarrow>
     \<exists>sc'. send_loop sc buf out = Some (0, out @ buf, sc') \<and> steady sc' \<and> moves sc \<le> moves sc' + length buf"
proof (induction sc buf out rule: send_loop.induct)
  case (4 n sc b bs out)
  show ?case
  proof (cases n)
    case 0
    then show ?thesis using 4 by simp
  next
    case (Suc m)
    have "length (drop n (b # bs)) \<le> moves sc" using 4(3) Suc by simp
    then obtain sc' where "send_loop sc (drop n (b # bs)) (out @ take n (b # bs))
        = Some (0, out @ b # bs, sc')" "steady sc'" "moves sc \<le> moves sc' + length (drop n (b # bs))"
      using 4(1) 4(2) by (auto simp del: drop_Suc_Cons take_Suc_Cons)
    then show ?thesis using Suc by (intro exI [of _ sc']) auto
  qed
qed auto

lemma recv_loop_result:
  "recv_loop sc k got inq = Some (rc, got', inq', sc') \<Longrightarrow>
     \<exists>p. inq = p @ inq' \<and> got' = got @ p \<and> length p \<le> k \<and> (rc = 0 \<longleftrightarrow> length p = k) \<and> (rc = 0 \<or> rc = -1)"
proof (induction sc k got inq rule: recv_loop.induct)
  case (4 n sc k got inq)
  show ?case
  proof (cases "inq = []")
    case True
    then show ?thesis using 4 by auto
  next
    case False
    define m where "m = min (max 1 n) (Suc k)"
    have "recv_loop sc (Suc k - length (take m inq)) (got @ take m inq) (drop m inq)
        = Some (rc, got', inq', sc')"
      using 4(2) False by (simp add: m_def Let_def)
    then obtain p where p: "drop m inq = p @ inq'" "got' = got @ take m inq @ p"
        "length p \<le> Suc k - length (take m inq)"
        "rc = 0 \<longleftrightarrow> length p = Suc k - length (take m inq)" "rc = 0 \<or> rc = -1"
      using 4(1) [OF False m_def] by auto
    have "length (take m inq) \<le> Suc k" by (auto simp: m_def)
    moreover have "inq = (take m inq @ p) @ inq'" using p(1) by (metis append.assoc append_take_drop_id)
    ultimately show ?thesis using p by (intro exI [of _ "take m inq @ p"]) auto
  qed
qed (auto split: if_splits)

lemma recv_loop_succeeds:
  "steady sc \<Longrightarrow> k \<le> length inq \<Longrightarrow> k \<le> moves sc \<Longrightarrow>
     \<exists>sc'. recv_loop sc k got inq = Some (0, got @ take k inq, drop k inq, sc') \<and> steady sc'
       \<and> moves sc \<le> moves sc' + k"
proof (induction sc k got inq rule: recv_loop.induct)
  case (4 n sc k got inq)
  define m where "m = min (max 1 n) (Suc k)"
  have ne: "inq \<noteq> []" using 4(3) by auto
  have m: "1 \<le> m" "m \<le> Suc k" "m \<le> length inq" using 4(3) by (auto simp: m_def)
  have len: "length (take m inq) = m" using m by simp
  have mm: "min (max (Suc 0) n) (Suc k) = m" "min (length inq) m = m" using m by (simp_all add: m_def)
  have "Suc k - m \<le> moves sc" using 4(4) m by (cases n) auto
  moreover have "Suc k - m \<le> length inq - m" using 4(3) by (rule diff_le_mono)
  ultimately obtain sc' where sc': "recv_loop sc (Suc k - m) (got @ take m inq) (drop m inq)
      = Some (0, got @ take m inq @ take (Suc k - m) (drop m inq), drop (Suc k - m) (drop m inq), sc')"
      "steady sc'" "moves sc \<le> moves sc' + (Suc k - m)"
    using 4(1) [OF ne m_def] 4(2,3) m by (auto simp: len)
  have "take m inq @ take (Suc k - m) (drop m inq) = take (Suc k) inq"
    using m take_add [of m "Suc k - m" inq] by simp
  then have "recv_loop (Ret n # sc) (Suc k) got inq = Some (0, got @ take (Suc k) inq, drop (Suc k) inq, sc')"
    using sc'(1) ne m mm by (simp add: Let_def)
  moreover have "moves (Ret n # sc) \<le> moves sc' + Suc k"
    using sc'(3) m by (cases n) auto
  ultimately show ?case using sc'(2) by blast
qed auto


section \<open>Whole frames\<close>

lemma base256_digits:
  assumes "n < 2 ^ 32"
  shows "((n div 256 ^ 3 mod 256 * 256 + n div 256 ^ 2 mod 256) * 256 + n div 256 mod 256) * 256
    + n mod 256 = (n::nat)"
proof -
  have "n div 256 ^ 3 < 256" using assms by (simp add: less_mult_imp_div_less)
  moreover have "n div 256 ^ 3 = n div 256 ^ 2 div 256" "n div 256 ^ 2 = n div 256 div 256"
    by (simp_all flip: div_mult2_eq)
  ultimately show ?thesis
    using div_mult_mod_eq [of n 256] div_mult_mod_eq [of "n div 256" 256]
      div_mult_mod_eq [of "n div 256 ^ 2" 256] by (simp only: mod_less)
qed

lemma ntohl_htonl: "ntohl_bytes (htonl_bytes w) = w"
proof -
  have "unat w < 2 ^ LENGTH(32)" by (rule unsigned_less)
  then have "unat w < 2 ^ 32" by simp
  moreover from this have "unat w div 16777216 mod 256 = unat w div 16777216"
    by (simp add: less_mult_imp_div_less)
  ultimately have "foldl (\<lambda>a c. a * 256 + of_char c) 0 (htonl_bytes w) = unat w"
    using base256_digits [of "unat w"] by (simp add: htonl_bytes_def)
  then show ?thesis by (simp add: ntohl_bytes_def)
qed

lemma length_htonl [simp]: "length (htonl_bytes w) = 4"
  by (simp add: htonl_bytes_def)

lemma length_as_u32: "n < 2 ^ 32 \<Longrightarrow> unat (word_of_nat n :: 32 word) = n"
  by (simp add: unat_of_nat)

text \<open>What a frame is on the wire, and reading one off the front of a byte stream.\<close>

definition frame :: "bytes \<Rightarrow> bytes" where
  "frame payload = htonl_bytes (word_of_nat (length payload)) @ payload"

definition unframe :: "bytes \<Rightarrow> (bytes \<times> bytes) option" where
  "unframe inq =
     (if length inq < 4 then None
      else let len = unat (ntohl_bytes (take 4 inq)); rest = drop 4 inq in
        if len > MAX_FRAME_LEN \<or> length rest < len then None else Some (take len rest, drop len rest))"

definition sendable :: "bytes \<Rightarrow> bool" where
  "sendable payload \<longleftrightarrow> length payload \<le> MAX_FRAME_LEN"

lemma sendable_u32: "sendable p \<Longrightarrow> unat (word_of_nat (length p) :: 32 word) = length p"
  by (rule length_as_u32) (simp add: sendable_def MAX_FRAME_LEN_def)

lemma unframe_frame: "sendable p \<Longrightarrow> unframe (frame p @ rest) = Some (p, rest)"
  by (simp add: unframe_def frame_def ntohl_htonl sendable_u32 Let_def)
    (simp add: sendable_def)


text \<open>
  \<^const>\<open>recv_frame\<close> over a steady socket with enough script is \<^const>\<open>unframe\<close>, in both
  directions: a whole frame is delivered, and a length beyond the limit is refused with the
  payload left unread.
\<close>

lemma recv_all_succeeds:
  assumes "steady (sk_rd sk)" "k \<le> length (sk_in sk)" "k \<le> moves (sk_rd sk)"
  obtains sc where "recv_all sk k = Some (0, take k (sk_in sk), sk\<lparr>sk_in := drop k (sk_in sk), sk_rd := sc\<rparr>)"
    "steady sc" "moves (sk_rd sk) \<le> moves sc + k"
  using recv_loop_succeeds [OF assms, of "[]"] by (auto simp: recv_all_def)

lemma send_all_succeeds:
  assumes "steady (sk_wr sk)" "length buf \<le> moves (sk_wr sk)"
  obtains sc where "send_all sk buf = Some (0, sk\<lparr>sk_out := sk_out sk @ buf, sk_wr := sc\<rparr>)"
    "steady sc" "moves (sk_wr sk) \<le> moves sc + length buf"
  using send_loop_succeeds [OF assms, of "[]"] by (auto simp: send_all_def)

lemma send_frame_succeeds:
  assumes "steady (sk_wr sk)" "length p + 4 \<le> moves (sk_wr sk)"
  obtains sc where "send_frame sk p = Some (0, sk\<lparr>sk_out := sk_out sk @ frame p, sk_wr := sc\<rparr>)"
    "steady sc" "moves (sk_wr sk) \<le> moves sc + length p + 4"
proof -
  let ?h = "htonl_bytes (word_of_nat (length p))"
  from assms obtain sc1 where s1: "send_all sk ?h = Some (0, sk\<lparr>sk_out := sk_out sk @ ?h, sk_wr := sc1\<rparr>)"
      "steady sc1" "moves (sk_wr sk) \<le> moves sc1 + 4"
    by (auto elim!: send_all_succeeds [of sk ?h])
  let ?sk1 = "sk\<lparr>sk_out := sk_out sk @ ?h, sk_wr := sc1\<rparr>"
  have "steady (sk_wr ?sk1)" "length p \<le> moves (sk_wr ?sk1)" using s1 assms by simp_all
  then obtain sc2 where s2: "send_all ?sk1 p = Some (0, ?sk1\<lparr>sk_out := sk_out ?sk1 @ p, sk_wr := sc2\<rparr>)"
      "steady sc2" "moves sc1 \<le> moves sc2 + length p"
    by (rule send_all_succeeds) simp
  show thesis
  proof (cases "p = []")
    case True
    with s1 show thesis by (intro that [of sc1]) (auto simp: send_frame_def frame_def)
  next
    case False
    with s1 s2 show thesis by (intro that [of sc2]) (auto simp: send_frame_def frame_def)
  qed
qed

text \<open>Over a steady socket a send that returns has written the whole frame.\<close>

lemma send_loop_steady:
  "send_loop sc buf out = Some (rc, out', sc') \<Longrightarrow> steady sc \<Longrightarrow> rc = 0 \<and> out' = out @ buf \<and> steady sc'"
proof (induction sc buf out rule: send_loop.induct)
  case (4 n sc b bs out)
  have "send_loop sc (drop n (b # bs)) (out @ take n (b # bs)) = Some (rc, out', sc')" "steady sc"
    using "4.prems" by simp_all
  from "4.IH" [OF this] show ?case unfolding append_assoc append_take_drop_id .
qed (auto split: if_splits)

lemma send_all_steady:
  "send_all k b = Some (rc, k') \<Longrightarrow> steady (sk_wr k) \<Longrightarrow>
     rc = 0 \<and> sk_out k' = sk_out k @ b \<and> steady (sk_wr k') \<and> sk_in k' = sk_in k \<and> sk_rd k' = sk_rd k"
  using send_loop_steady [of "sk_wr k" b "[]"] by (auto simp: send_all_def split: option.splits)

lemma send_frame_steady:
  assumes "send_frame sk p = Some (rc, sk')" "steady (sk_wr sk)"
  shows "rc = 0 \<and> sk_out sk' = sk_out sk @ frame p \<and> steady (sk_wr sk') \<and> sk_in sk' = sk_in sk \<and> sk_rd sk' = sk_rd sk"
proof -
  obtain rc1 sk1 where h: "send_all sk (htonl_bytes (word_of_nat (length p))) = Some (rc1, sk1)"
    using assms(1) by (cases "send_all sk (htonl_bytes (word_of_nat (length p)))") (auto simp: send_frame_def)
  note h1 = send_all_steady [OF h assms(2)]
  show ?thesis
  proof (cases "p = []")
    case True
    then show ?thesis using assms(1) h h1 by (simp add: send_frame_def frame_def)
  next
    case False
    then obtain rc2 where "send_all sk1 p = Some (rc2, sk')" "rc = (if rc2 \<noteq> 0 then -1 else 0)"
      using assms(1) h h1 by (auto simp: send_frame_def split: option.splits)
    then show ?thesis using send_all_steady [of sk1 p rc2 sk'] h1 by (simp add: frame_def)
  qed
qed

lemma recv_frame_delivers:
  assumes "sk_in sk = frame p @ rest" "sendable p" "mem (length p + 1)"
    and "steady (sk_rd sk)" "length p + 4 \<le> moves (sk_rd sk)"
  obtains sc where "recv_frame mem sk = Some (Some p, sk\<lparr>sk_in := rest, sk_rd := sc\<rparr>)"
    "steady sc" "moves (sk_rd sk) \<le> moves sc + length p + 4"
proof -
  let ?h = "htonl_bytes (word_of_nat (length p))"
  have inq: "sk_in sk = ?h @ p @ rest" using assms(1) by (simp add: frame_def)
  from assms(4,5) inq obtain sc1 where s1: "recv_all sk 4 = Some (0, ?h, sk\<lparr>sk_in := p @ rest, sk_rd := sc1\<rparr>)"
      "steady sc1" "moves (sk_rd sk) \<le> moves sc1 + 4"
    by (auto elim!: recv_all_succeeds [of sk 4])
  let ?sk1 = "sk\<lparr>sk_in := p @ rest, sk_rd := sc1\<rparr>"
  have "steady (sk_rd ?sk1)" "length p \<le> length (sk_in ?sk1)" "length p \<le> moves (sk_rd ?sk1)"
    using s1 assms(5) by simp_all
  then obtain sc2 where s2: "recv_all ?sk1 (length p) = Some (0, p, ?sk1\<lparr>sk_in := rest, sk_rd := sc2\<rparr>)"
      "steady sc2" "moves sc1 \<le> moves sc2 + length p"
    by (rule recv_all_succeeds) simp
  note len = ntohl_htonl sendable_u32 [OF assms(2)]
  show thesis
  proof (cases "p = []")
    case True
    with s1 assms(2,3) len show thesis
      by (intro that [of sc1]) (auto simp: recv_frame_def sendable_def)
  next
    case False
    with s1 s2 assms(2,3) len show thesis
      by (intro that [of sc2]) (auto simp: recv_frame_def sendable_def)
  qed
qed

lemma recv_frame_too_long:
  assumes "sk_in sk = frame p @ rest" "\<not> sendable p" "length p < 2 ^ 32"
    and "steady (sk_rd sk)" "4 \<le> moves (sk_rd sk)"
  obtains sc where "recv_frame mem sk = Some (None, sk\<lparr>sk_in := p @ rest, sk_rd := sc\<rparr>)"
proof -
  let ?h = "htonl_bytes (word_of_nat (length p))"
  have inq: "sk_in sk = ?h @ p @ rest" using assms(1) by (simp add: frame_def)
  from assms(4,5) inq obtain sc1 where "recv_all sk 4 = Some (0, ?h, sk\<lparr>sk_in := p @ rest, sk_rd := sc1\<rparr>)"
    by (auto elim!: recv_all_succeeds [of sk 4])
  then show thesis
    using assms(2) length_as_u32 [OF assms(3)]
    by (intro that [of sc1]) (simp add: recv_frame_def ntohl_htonl sendable_def)
qed


section \<open>Fields\<close>

text \<open>
  The shape every request and response has: fields without NUL or newline, each followed by a
  newline, and a rest that is read where it lies.
\<close>

lemma next_field_lf [wire_simps]:
  assumes "no_nul f" "no_lf f"
  shows "next_field (f @ LF # rest) = (f, rest)"
proof -
  have "c_str (f @ LF # rest) = f @ LF # c_str rest"
    using assms(1) by (induction f) (auto simp: c_str_def)
  moreover have "takeWhile (\<lambda>c. c \<noteq> LF) (f @ LF # c_str rest) = f"
    using assms(2) by (intro takeWhile_append_sep) (auto simp: no_lf_def)
  ultimately show ?thesis by (simp add: next_field_def Let_def)
qed

lemma next_field_last [wire_simps]:
  "no_nul f \<Longrightarrow> no_lf f \<Longrightarrow> next_field f = (f, [])"
  by (simp add: next_field_def no_lf_def)

text \<open>Whatever the bytes are, a field holds no newline and no NUL, and the cursor only moves forward.\<close>

lemma next_field_wf:
  "next_field cur = (f, cur') \<Longrightarrow> no_nul f \<and> no_lf f \<and> (\<exists>p. cur = p @ cur')"
proof -
  assume nf: "next_field cur = (f, cur')"
  have "no_nul (takeWhile (\<lambda>c. c \<noteq> LF) (c_str cur))" "no_lf (takeWhile (\<lambda>c. c \<noteq> LF) (c_str cur))"
    by (auto simp: no_nul_def no_lf_def c_str_def dest!: set_takeWhileD)
  moreover have "\<exists>p. cur = p @ drop n cur" for n
    by (metis append_take_drop_id)
  ultimately show ?thesis
    using nf by (auto simp: next_field_def Let_def no_lf_def split: if_splits)
qed


section \<open>The framed channel as an interface\<close>

text \<open>
  What client and supervisor rely on: payloads put into a stream one after the other come out
  one by one, in order and whole.
\<close>

locale frame_codec =
  fixes enc :: "bytes \<Rightarrow> bytes"
    and dec :: "bytes \<Rightarrow> (bytes \<times> bytes) option"
    and ok :: "bytes \<Rightarrow> bool"
  assumes dec_enc: "ok p \<Longrightarrow> dec (enc p @ rest) = Some (p, rest)"
begin

primrec dec_n :: "nat \<Rightarrow> bytes \<Rightarrow> (bytes list \<times> bytes) option" where
  "dec_n 0 s = Some ([], s)"
| "dec_n (Suc n) s = (case dec s of None \<Rightarrow> None
     | Some (p, r) \<Rightarrow> (case dec_n n r of None \<Rightarrow> None | Some (ps, r') \<Rightarrow> Some (p # ps, r')))"

lemma dec_n_stream:
  "list_all ok ps \<Longrightarrow> dec_n (length ps) (concat (map enc ps) @ rest) = Some (ps, rest)"
  by (induction ps) (simp_all add: dec_enc)

lemma enc_inj: "ok p \<Longrightarrow> ok q \<Longrightarrow> enc p = enc q \<Longrightarrow> p = q"
  using dec_enc [of p "[]"] dec_enc [of q "[]"] by simp

lemma enc_stream_inj:
  "list_all ok ps \<Longrightarrow> list_all ok qs \<Longrightarrow> length ps = length qs \<Longrightarrow>
     concat (map enc ps) = concat (map enc qs) \<Longrightarrow> ps = qs"
  using dec_n_stream [of ps "[]"] dec_n_stream [of qs "[]"] by simp

end

interpretation framing: frame_codec frame unframe sendable
  by unfold_locales (rule unframe_frame)

end
