(* ===== verification/Proc.thy ===== *)
theory Proc
  imports Cow Wire
begin

text \<open>
  \<^verbatim>\<open>src/c/agentbox_proc.c\<close>: running one command, with its two output pipes drained by an event
  loop, the deadline, and the mapping of the wait status. What the command and the kernel do is a
  script with one entry per pass of the loop; a script that ends before the loop does means that
  the command is still running, which is the result \<^const>\<open>None\<close>.
\<close>

section \<open>Pipes and the drain\<close>

text \<open>
  The read end of a pipe: the bytes in it, and whether every write end is closed. A read takes all
  there is, up to the size of the buffer; without data it sees the end or EAGAIN.
\<close>

record pipe =
  p_buf :: bytes
  p_closed :: bool

record exec_result =
  exit_code :: int
  timed_out :: bool
  duration_ms :: int
  stdout_path :: string
  stderr_path :: string

text \<open>
  The variables of \<^verbatim>\<open>agentbox_proc_run\<close>: the world with the capture files, the user data of the
  callback, the pipes, and the scripts answering the writes to the capture files, whose
  descriptors are the resolved paths.
\<close>

record 'u run_state =
  rs_world :: world
  rs_user :: 'u
  rs_out :: pipe
  rs_err :: pipe
  rs_out_fd :: path
  rs_err_fd :: path
  rs_out_sc :: "sysret list"
  rs_err_sc :: "sysret list"
  rs_out_open :: bool
  rs_err_open :: bool

fun write_all_best_effort :: "path \<Rightarrow> sysret list \<Rightarrow> bytes \<Rightarrow> world \<Rightarrow> (sysret list \<times> world) option" where
  "write_all_best_effort fd sc [] w = Some (sc, w)"
| "write_all_best_effort fd [] (b # bs) w = None"
| "write_all_best_effort fd (Err e # sc) (b # bs) w =
     (if e = EINTR then write_all_best_effort fd sc (b # bs) w else Some (sc, w))"
| "write_all_best_effort fd (Ret n # sc) (b # bs) w =
     write_all_best_effort fd sc (drop n (b # bs)) (fd_append fd (take n (b # bs)) w)"

text \<open>
  \<^verbatim>\<open>drain_once\<close>; \<open>fail\<close> is the error the read runs into, if any. The first component is the C
  result: whether the pipe is done.
\<close>

definition drain_once ::
  "bool \<Rightarrow> errno option \<Rightarrow> (bool \<Rightarrow> bytes \<Rightarrow> 'u \<Rightarrow> 'u option) option \<Rightarrow> 'u run_state \<Rightarrow> (bool \<times> 'u run_state) option" where
  "drain_once is_stderr fail on_chunk s =
     (case fail of
        Some e \<Rightarrow> Some (e \<noteq> EAGAIN, s)
      | None \<Rightarrow>
          (let p = (if is_stderr then rs_err s else rs_out s); buf = take 8192 (p_buf p) in
           if buf = [] then Some (p_closed p, s)
           else (case write_all_best_effort (if is_stderr then rs_err_fd s else rs_out_fd s)
                        (if is_stderr then rs_err_sc s else rs_out_sc s) buf (rs_world s) of
               None \<Rightarrow> None
             | Some (sc, w) \<Rightarrow>
                 (let p1 = p\<lparr>p_buf := drop 8192 (p_buf p)\<rparr>;
                      s1 = (if is_stderr then s\<lparr>rs_world := w, rs_err := p1, rs_err_sc := sc\<rparr>
                            else s\<lparr>rs_world := w, rs_out := p1, rs_out_sc := sc\<rparr>)
                  in (case on_chunk of
                        None \<Rightarrow> Some (False, s1)
                      | Some cb \<Rightarrow> (case cb is_stderr buf (rs_user s1) of
                            None \<Rightarrow> None
                          | Some u \<Rightarrow> Some (False, s1\<lparr>rs_user := u\<rparr>)))))))"


section \<open>The event loop\<close>

datatype wait_answer = WaitRunning | WaitExited "32 word" | WaitError

text \<open>
  One pass of the loop: the clock at its head, what the command has written to the pipes and
  whether it closed them, what \<^verbatim>\<open>poll\<close> returns with the events it reports, errors of the reads,
  and the answer of \<^verbatim>\<open>waitpid\<close>.
\<close>

record loop_pass =
  lp_now :: int
  lp_out :: bytes
  lp_err :: bytes
  lp_out_closed :: bool
  lp_err_closed :: bool
  lp_poll :: int
  lp_out_event :: bool
  lp_err_event :: bool
  lp_out_fail :: "errno option"
  lp_err_fail :: "errno option"
  lp_wait :: wait_answer

definition feed :: "bytes \<Rightarrow> bool \<Rightarrow> pipe \<Rightarrow> pipe" where
  "feed b closed p = p\<lparr>p_buf := p_buf p @ b, p_closed := p_closed p \<or> closed\<rparr>"

definition feed_pass :: "loop_pass \<Rightarrow> 'u run_state \<Rightarrow> 'u run_state" where
  "feed_pass lp s = s\<lparr>rs_out := feed (lp_out lp) (lp_out_closed lp) (rs_out s),
     rs_err := feed (lp_err lp) (lp_err_closed lp) (rs_err s)\<rparr>"

text \<open>Draining one stream if it is open and has an event; the flag falls when the pipe is done.\<close>

definition drain_stream ::
  "bool \<Rightarrow> bool \<Rightarrow> errno option \<Rightarrow> (bool \<Rightarrow> bytes \<Rightarrow> 'u \<Rightarrow> 'u option) option \<Rightarrow> 'u run_state \<Rightarrow> 'u run_state option" where
  "drain_stream is_stderr event fail on_chunk s =
     (if (if is_stderr then rs_err_open s else rs_out_open s) \<and> event
      then (case drain_once is_stderr fail on_chunk s of
              None \<Rightarrow> None
            | Some (eof, s1) \<Rightarrow>
                Some (if eof then (if is_stderr then s1\<lparr>rs_err_open := False\<rparr> else s1\<lparr>rs_out_open := False\<rparr>)
                      else s1))
      else Some s)"

text \<open>
  The loop, from the state where the child is not done. It answers with the final state, the wait
  status (left at 0 by a failed wait) and whether the deadline was reached.
\<close>

fun proc_loop ::
  "(bool \<Rightarrow> bytes \<Rightarrow> 'u \<Rightarrow> 'u option) option \<Rightarrow> int \<Rightarrow> loop_pass list \<Rightarrow> 'u run_state
     \<Rightarrow> ('u run_state \<times> 32 word \<times> bool) option" where
  "proc_loop on_chunk deadline [] s = None"
| "proc_loop on_chunk deadline (lp # lps) s =
     (let s0 = feed_pass lp s in
      if deadline - lp_now lp \<le> 0 then Some (s0, 0, True)
      else (case (if (rs_out_open s0 \<or> rs_err_open s0) \<and> 0 < lp_poll lp
                  then (case drain_stream False (lp_out_event lp) (lp_out_fail lp) on_chunk s0 of
                          None \<Rightarrow> None
                        | Some s1 \<Rightarrow> drain_stream True (lp_err_event lp) (lp_err_fail lp) on_chunk s1)
                  else Some s0) of
          None \<Rightarrow> None
        | Some s2 \<Rightarrow> (case lp_wait lp of
            WaitRunning \<Rightarrow> proc_loop on_chunk deadline lps s2
          | WaitExited st \<Rightarrow> Some (s2, st, False)
          | WaitError \<Rightarrow> Some (s2, 0, False))))"

text \<open>The last drain: at most four rounds, each reading both pipes if they are open.\<close>

fun final_drain :: "nat \<Rightarrow> (bool \<Rightarrow> bytes \<Rightarrow> 'u \<Rightarrow> 'u option) option \<Rightarrow> 'u run_state \<Rightarrow> 'u run_state option" where
  "final_drain 0 on_chunk s = Some s"
| "final_drain (Suc k) on_chunk s =
     (if rs_out_open s \<or> rs_err_open s
      then (case drain_stream False True None on_chunk s of
              None \<Rightarrow> None
            | Some s1 \<Rightarrow> (case drain_stream True True None on_chunk s1 of
                None \<Rightarrow> None
              | Some s2 \<Rightarrow> final_drain k on_chunk s2))
      else Some s)"

definition exit_code_of :: "bool \<Rightarrow> 32 word \<Rightarrow> int" where
  "exit_code_of timedout status =
     (if timedout then -1
      else if WIFEXITED status then WEXITSTATUS status
      else if WIFSIGNALED status then 128 + WTERMSIG status
      else -1)"


section \<open>The whole run\<close>

text \<open>
  What the kernel decides for one run: whether \<^verbatim>\<open>pipe\<close> and \<^verbatim>\<open>fork\<close> succeed, the clock at the start
  and at the end, the passes, the status after the kill at the deadline, and what arrives in the
  pipes after the last pass.
\<close>

record run_env =
  re_pipe_out :: bool
  re_pipe_err :: bool
  re_fork :: bool
  re_start :: int
  re_end :: int
  re_passes :: "loop_pass list"
  re_kill_status :: "32 word"
  re_late :: loop_pass
  re_out_sc :: "sysret list"
  re_err_sc :: "sysret list"

definition empty_pipe :: pipe where
  "empty_pipe = \<lparr>p_buf = [], p_closed = False\<rparr>"

text \<open>The variables when the loop starts.\<close>

definition run_begin :: "run_env \<Rightarrow> 'u \<Rightarrow> world \<Rightarrow> path \<Rightarrow> path \<Rightarrow> 'u run_state" where
  "run_begin env u w out_fd err_fd =
     \<lparr>rs_world = w, rs_user = u, rs_out = empty_pipe, rs_err = empty_pipe,
      rs_out_fd = out_fd, rs_err_fd = err_fd, rs_out_sc = re_out_sc env, rs_err_sc = re_err_sc env,
      rs_out_open = True, rs_err_open = True\<rparr>"

definition agentbox_proc_run ::
  "run_env \<Rightarrow> int \<Rightarrow> string \<Rightarrow> string \<Rightarrow> (bool \<Rightarrow> bytes \<Rightarrow> 'u \<Rightarrow> 'u option) option \<Rightarrow> 'u \<times> world
     \<Rightarrow> ((errcode + exec_result) \<times> 'u \<times> world) option" where
  "agentbox_proc_run env timeout_sec out_path err_path on_chunk = (\<lambda>(u, w).
     (case sys_open_write out_path 420 w of
        (Inl e, w1) \<Rightarrow> Some (Inl AGENTBOX_ERR_IO, (u, w1))
      | (Inr out_fd, w1) \<Rightarrow> (case sys_open_write err_path 420 w1 of
          (Inl e, w2) \<Rightarrow> Some (Inl AGENTBOX_ERR_IO, (u, w2))
        | (Inr err_fd, w2) \<Rightarrow>
            if \<not> re_pipe_out env \<or> \<not> re_pipe_err env \<or> \<not> re_fork env
            then Some (Inl AGENTBOX_ERR_GENERIC, (u, w2))
            else (case proc_loop on_chunk (re_start env + timeout_sec * 1000) (re_passes env)
                    (run_begin env u w2 out_fd err_fd) of
                None \<Rightarrow> None
              | Some (s, status, timedout) \<Rightarrow>
                  (let status1 = (if timedout then re_kill_status env else status) in
                   (case final_drain 4 on_chunk (feed_pass (re_late env) s) of
                      None \<Rightarrow> None
                    | Some s1 \<Rightarrow> Some (Inr \<lparr>exit_code = exit_code_of timedout status1, timed_out = timedout,
                        duration_ms = re_end env - re_start env,
                        stdout_path = snprintf AGENTBOX_PATH_LEN out_path,
                        stderr_path = snprintf AGENTBOX_PATH_LEN err_path\<rparr>, (rs_user s1, rs_world s1))))))))"

text \<open>
  The child up to the command: a failed \<^verbatim>\<open>setsid\<close> or \<^verbatim>\<open>chdir\<close> and a failed \<^verbatim>\<open>execlp\<close> have exit codes
  of their own.
\<close>

definition child_exit :: "bool \<Rightarrow> bool \<Rightarrow> int option \<Rightarrow> int" where
  "child_exit setsid_ok chdir_ok shell =
     (if \<not> setsid_ok then 126 else if \<not> chdir_ok then 126
      else (case shell of None \<Rightarrow> 127 | Some code \<Rightarrow> code))"



section \<open>What is captured and streamed\<close>

text \<open>The chunks handed to the callback, oldest first, each with its stream (true for stderr).\<close>

type_synonym chunks = "(bool \<times> bytes) list"

definition stream_of :: "bool \<Rightarrow> chunks \<Rightarrow> bytes" where
  "stream_of is_stderr cs = concat (map snd (filter (\<lambda>c. fst c = is_stderr) cs))"

lemma stream_of_snoc [simp]:
  "stream_of e [] = []" "stream_of e (cs @ [(e', b)]) = stream_of e cs @ (if e = e' then b else [])"
  by (simp_all add: stream_of_def)

definition holds_file :: "path \<Rightarrow> bytes \<Rightarrow> world \<Rightarrow> bool" where
  "holds_file fd b w \<longleftrightarrow> fd \<noteq> [] \<and> (\<exists>m. lookup (fs w) fd = Some (Reg m b))"

lemma holds_file_append:
  assumes "holds_file fd b w"
  shows "holds_file fd (b @ c) (fd_append fd c w)"
    "fd \<parallel> fd' \<Longrightarrow> holds_file fd' b' w \<Longrightarrow> holds_file fd' b' (fd_append fd c w)"
  using assms lookup_put_exists [of "fs w" fd] by (auto simp: holds_file_def fd_append_def lookup_put_parallel)

lemma write_all_steady:
  "write_all_best_effort fd sc buf w = Some (sc', w') \<Longrightarrow> steady sc \<Longrightarrow> holds_file fd b w \<Longrightarrow>
     steady sc' \<and> holds_file fd (b @ buf) w' \<and> (\<forall>fd' b'. fd \<parallel> fd' \<longrightarrow> holds_file fd' b' w \<longrightarrow> holds_file fd' b' w')"
proof (induction fd sc buf w arbitrary: b rule: write_all_best_effort.induct)
  case (4 fd n sc c bs w)
  let ?w1 = "fd_append fd (take n (c # bs)) w"
  have "write_all_best_effort fd sc (drop n (c # bs)) ?w1 = Some (sc', w')"
    using "4.prems"(1) by simp
  moreover have "steady sc" using "4.prems"(2) by simp
  moreover have "holds_file fd (b @ take n (c # bs)) ?w1"
    using "4.prems"(3) by (rule holds_file_append(1))
  ultimately have "steady sc' \<and> holds_file fd ((b @ take n (c # bs)) @ drop n (c # bs)) w'
      \<and> (\<forall>fd' b'. fd \<parallel> fd' \<longrightarrow> holds_file fd' b' ?w1 \<longrightarrow> holds_file fd' b' w')"
    by (rule "4.IH")
  then have "steady sc' \<and> holds_file fd (b @ c # bs) w'
      \<and> (\<forall>fd' b'. fd \<parallel> fd' \<longrightarrow> holds_file fd' b' ?w1 \<longrightarrow> holds_file fd' b' w')"
    unfolding append_assoc append_take_drop_id .
  then show ?case
    using holds_file_append(2) [OF "4.prems"(3)] by blast
qed (auto split: if_splits)

text \<open>
  The invariant of a run that has delivered the chunks \<open>cs\<close>, of a command that has written \<open>wo\<close>
  and \<open>we\<close>: what was read is in the files, what was not is still in the pipes.
\<close>

definition run_inv :: "bytes \<Rightarrow> bytes \<Rightarrow> chunks \<Rightarrow> 'u run_state \<Rightarrow> bool" where
  "run_inv wo we cs s \<longleftrightarrow>
     rs_out_fd s \<parallel> rs_err_fd s \<and> steady (rs_out_sc s) \<and> steady (rs_err_sc s)
     \<and> holds_file (rs_out_fd s) (stream_of False cs) (rs_world s)
     \<and> holds_file (rs_err_fd s) (stream_of True cs) (rs_world s)
     \<and> stream_of False cs @ p_buf (rs_out s) = wo
     \<and> stream_of True cs @ p_buf (rs_err s) = we
     \<and> (\<forall>c \<in> set cs. length (snd c) \<le> 8192)"

lemma parallel_swap: "p \<parallel> q \<Longrightarrow> q \<parallel> p"
  by (auto simp: parallel_def)

section \<open>The capture files\<close>

text \<open>The capture files are two entries of one directory, new or to be overwritten.\<close>

definition capture_ready :: "world \<Rightarrow> string \<Rightarrow> string \<Rightarrow> path \<Rightarrow> string \<Rightarrow> string \<Rightarrow> bool" where
  "capture_ready w out_path err_path r n k \<longleftrightarrow>
     quiet w \<and> names w out_path (r @ [n]) \<and> names w err_path (r @ [k]) \<and> n \<noteq> k
     \<and> (\<forall>p \<in> {r @ [n], r @ [k]}. case lookup (fs w) p of None \<Rightarrow> True | Some x \<Rightarrow> (case x of Reg m c \<Rightarrow> True | _ \<Rightarrow> False))"

lemma open_write_names:
  assumes "quiet w" "names w s p"
    and "case lookup (fs w) p of None \<Rightarrow> True | Some x \<Rightarrow> (case x of Reg m c \<Rightarrow> True | _ \<Rightarrow> False)"
  obtains m' where "sys_open_write s m w = (Inr p, w\<lparr>fs := put p (Some (Reg m' [])) (fs w)\<rparr>)"
proof -
  have "resolve w True s = Inr p"
    using assms(3) by (intro resolve_names_follow [OF assms(2)]) (auto split: option.splits)
  then show thesis
    using assms(1,3) that by (auto simp: sys_open_write_def split: option.splits node.splits)
qed

lemma capture_opens:
  assumes "capture_ready w out_path err_path r n k"
  obtains w1 w2 where "sys_open_write out_path 420 w = (Inr (r @ [n]), w1)"
    "sys_open_write err_path 420 w1 = (Inr (r @ [k]), w2)"
    "holds_file (r @ [n]) [] w2" "holds_file (r @ [k]) [] w2" "(r @ [n]) \<parallel> (r @ [k])"
proof -
  have c: "quiet w" "names w out_path (r @ [n])" "names w err_path (r @ [k])" "n \<noteq> k"
    using assms by (simp_all add: capture_ready_def)
  have par: "(r @ [n]) \<parallel> (r @ [k])" using c(4) by (simp add: parallel_def)
  obtain m1 where o1: "sys_open_write out_path 420 w = (Inr (r @ [n]), w\<lparr>fs := put (r @ [n]) (Some (Reg m1 [])) (fs w)\<rparr>)"
    using assms by (rule_tac open_write_names [OF c(1,2)]) (auto simp: capture_ready_def)
  let ?w1 = "w\<lparr>fs := put (r @ [n]) (Some (Reg m1 [])) (fs w)\<rparr>"
  have same: "lookup (fs ?w1) (r @ [k]) = lookup (fs w) (r @ [k])" using par by (simp add: lookup_put_parallel)
  have "names ?w1 err_path (r @ [k])"
    using c(2,3) dir_at_put_butlast [of "fs w" "r @ [n]"] by (auto simp: names_def)
  then obtain m2 where o2: "sys_open_write err_path 420 ?w1 = (Inr (r @ [k]), ?w1\<lparr>fs := put (r @ [k]) (Some (Reg m2 [])) (fs ?w1)\<rparr>)"
    using assms c(1) same by (rule_tac open_write_names [of ?w1 err_path "r @ [k]"]) (auto simp: capture_ready_def)
  let ?w2 = "?w1\<lparr>fs := put (r @ [k]) (Some (Reg m2 [])) (fs ?w1)\<rparr>"
  have l1: "lookup (fs ?w1) (r @ [n]) = Some (Reg m1 [])" using c(2) by simp
  have "lookup (fs ?w2) (r @ [k]) = Some (Reg m2 [])"
    using \<open>names ?w1 err_path (r @ [k])\<close> lookup_put_names [of ?w1 err_path "r @ [k]"] by simp
  moreover have "lookup (fs ?w2) (r @ [n]) = Some (Reg m1 [])"
    using l1 par by (simp add: lookup_put_parallel parallel_swap)
  ultimately show thesis using that [OF o1 o2] par by (simp add: holds_file_def)
qed

text \<open>
  The passes of a loop with the deadline \<open>dl\<close>, up to the one that ends it, and what the command
  writes to a stream in these passes and after them.
\<close>

definition ends_loop :: "int \<Rightarrow> loop_pass \<Rightarrow> bool" where
  "ends_loop dl lp \<longleftrightarrow> dl \<le> lp_now lp \<or> lp_wait lp \<noteq> WaitRunning"

definition passes_run :: "int \<Rightarrow> loop_pass list \<Rightarrow> nat" where
  "passes_run dl lps = Suc (length (takeWhile (\<lambda>lp. \<not> ends_loop dl lp) lps))"

definition written :: "bool \<Rightarrow> run_env \<Rightarrow> int \<Rightarrow> bytes" where
  "written e env t =
     concat (map (if e then lp_err else lp_out) (take (passes_run (re_start env + t * 1000) (re_passes env)) (re_passes env)))
     @ (if e then lp_err else lp_out) (re_late env)"

text \<open>The states a finished run has gone through.\<close>

lemma proc_run_states:
  assumes "capture_ready w out_path err_path r n k"
    and "agentbox_proc_run env t out_path err_path cb (u, w) = Some (Inr res, (u', w'))"
  obtains w2 s1 st to s2 where
    "holds_file (r @ [n]) [] w2" "holds_file (r @ [k]) [] w2" "(r @ [n]) \<parallel> (r @ [k])"
    "proc_loop cb (re_start env + t * 1000) (re_passes env) (run_begin env u w2 (r @ [n]) (r @ [k])) = Some (s1, st, to)"
    "final_drain 4 cb (feed_pass (re_late env) s1) = Some s2" "u' = rs_user s2" "w' = rs_world s2"
    "timed_out res = to" "exit_code res = exit_code_of to (if to then re_kill_status env else st)"
proof -
  obtain w1 w2 where o: "sys_open_write out_path 420 w = (Inr (r @ [n]), w1)"
    "sys_open_write err_path 420 w1 = (Inr (r @ [k]), w2)"
    and h: "holds_file (r @ [n]) [] w2" "holds_file (r @ [k]) [] w2" "(r @ [n]) \<parallel> (r @ [k])"
    by (rule capture_opens [OF assms(1)])
  show thesis
    using assms(2) o by (auto simp: agentbox_proc_run_def Let_def simp del: final_drain.simps
        split: if_splits option.splits prod.splits intro: that [OF h])
qed


section \<open>A run and its callback\<close>

text \<open>
  The contract between a run and its callback: \<open>sees u cs\<close> says that the receiver with the user
  data \<open>u\<close> has seen exactly the chunks \<open>cs\<close>.
\<close>

locale chunk_sink =
  fixes cb :: "bool \<Rightarrow> bytes \<Rightarrow> 'u \<Rightarrow> 'u option"
    and sees :: "'u \<Rightarrow> chunks \<Rightarrow> bool"
  assumes deliver: "sees u cs \<Longrightarrow> cb e b u = Some u' \<Longrightarrow> sees u' (cs @ [(e, b)])"
begin

definition seen :: "bytes \<Rightarrow> bytes \<Rightarrow> 'u run_state \<Rightarrow> bool" where
  "seen wo we s \<longleftrightarrow> (\<exists>cs. run_inv wo we cs s \<and> sees (rs_user s) cs)"

lemma drain_once_seen:
  assumes "drain_once e fail (Some cb) s = Some (eof, s')" "seen wo we s"
  shows "seen wo we s' \<and> rs_out_fd s' = rs_out_fd s \<and> rs_err_fd s' = rs_err_fd s"
proof (cases "fail = None \<and> take 8192 (p_buf (if e then rs_err s else rs_out s)) \<noteq> []")
  case True
  obtain cs where cs: "run_inv wo we cs s" "sees (rs_user s) cs" using assms(2) by (auto simp: seen_def)
  show ?thesis
  proof (cases e)
    case True
    let ?b = "take 8192 (p_buf (rs_err s))"
    obtain sc w u where wr: "write_all_best_effort (rs_err_fd s) (rs_err_sc s) ?b (rs_world s) = Some (sc, w)"
      and cb: "cb True ?b (rs_user s) = Some u"
      and s': "s' = s\<lparr>rs_world := w, rs_err := (rs_err s)\<lparr>p_buf := drop 8192 (p_buf (rs_err s))\<rparr>, rs_err_sc := sc, rs_user := u\<rparr>"
      using assms(1) \<open>e\<close> \<open>fail = None \<and> _\<close> by (auto simp: drain_once_def Let_def split: option.splits)
    have "steady (rs_err_sc s)" "holds_file (rs_err_fd s) (stream_of True cs) (rs_world s)"
      using cs(1) by (simp_all add: run_inv_def)
    from write_all_steady [OF wr this] cs(1) have "run_inv wo we (cs @ [(True, ?b)]) s'"
      by (auto simp: s' run_inv_def dest: parallel_swap)
    moreover have "sees (rs_user s') (cs @ [(True, ?b)])" using deliver [OF cs(2) cb] by (simp add: s')
    ultimately show ?thesis by (auto simp: seen_def s')
  next
    case False
    let ?b = "take 8192 (p_buf (rs_out s))"
    obtain sc w u where wr: "write_all_best_effort (rs_out_fd s) (rs_out_sc s) ?b (rs_world s) = Some (sc, w)"
      and cb: "cb False ?b (rs_user s) = Some u"
      and s': "s' = s\<lparr>rs_world := w, rs_out := (rs_out s)\<lparr>p_buf := drop 8192 (p_buf (rs_out s))\<rparr>, rs_out_sc := sc, rs_user := u\<rparr>"
      using assms(1) \<open>\<not> e\<close> \<open>fail = None \<and> _\<close> by (auto simp: drain_once_def Let_def split: option.splits)
    have "steady (rs_out_sc s)" "holds_file (rs_out_fd s) (stream_of False cs) (rs_world s)"
      using cs(1) by (simp_all add: run_inv_def)
    from write_all_steady [OF wr this] cs(1) have "run_inv wo we (cs @ [(False, ?b)]) s'"
      by (auto simp: s' run_inv_def)
    moreover have "sees (rs_user s') (cs @ [(False, ?b)])" using deliver [OF cs(2) cb] by (simp add: s')
    ultimately show ?thesis by (auto simp: seen_def s')
  qed
next
  case False
  then have "s' = s" using assms(1) by (auto simp: drain_once_def Let_def split: option.splits if_splits)
  then show ?thesis using assms(2) by simp
qed

lemma drain_stream_seen:
  assumes "drain_stream e ev fail (Some cb) s = Some s'" "seen wo we s"
  shows "seen wo we s' \<and> rs_out_fd s' = rs_out_fd s \<and> rs_err_fd s' = rs_err_fd s"
proof (cases "(if e then rs_err_open s else rs_out_open s) \<and> ev")
  case True
  then obtain eof s1 where d: "drain_once e fail (Some cb) s = Some (eof, s1)"
    and s': "s' = (if eof then (if e then s1\<lparr>rs_err_open := False\<rparr> else s1\<lparr>rs_out_open := False\<rparr>) else s1)"
    using assms(1) by (auto simp: drain_stream_def split: option.splits prod.splits if_splits)
  note i = drain_once_seen [OF d assms(2)]
  then have "seen wo we s1" by blast
  then have "seen wo we s'" by (auto simp: s' seen_def run_inv_def)
  then show ?thesis using i by (simp add: s')
next
  case False
  then have "s' = s" using assms(1) unfolding drain_stream_def by (metis option.inject)
  then show ?thesis using assms(2) by simp
qed

lemma feed_pass_seen: "seen wo we s \<Longrightarrow> seen (wo @ lp_out lp) (we @ lp_err lp) (feed_pass lp s)"
  by (fastforce simp: seen_def run_inv_def feed_pass_def feed_def)

lemma proc_loop_seen:
  "proc_loop (Some cb) dl lps s = Some (s', st, t) \<Longrightarrow> seen wo we s \<Longrightarrow>
     seen (wo @ concat (map lp_out (take (passes_run dl lps) lps))) (we @ concat (map lp_err (take (passes_run dl lps) lps))) s'
       \<and> rs_out_fd s' = rs_out_fd s \<and> rs_err_fd s' = rs_err_fd s"
proof (induction lps arbitrary: s wo we)
  case (Cons lp lps)
  let ?s0 = "feed_pass lp s"
  have i0: "seen (wo @ lp_out lp) (we @ lp_err lp) ?s0" using Cons.prems(2) by (rule feed_pass_seen)
  have fd0: "rs_out_fd ?s0 = rs_out_fd s" "rs_err_fd ?s0 = rs_err_fd s" by (simp_all add: feed_pass_def)
  show ?case
  proof (cases "dl - lp_now lp \<le> 0")
    case True
    then have "s' = ?s0" "passes_run dl (lp # lps) = 1" using Cons.prems(1) by (simp_all add: passes_run_def ends_loop_def)
    then show ?thesis using i0 fd0 by simp
  next
    case False
    obtain s2 where s2: "(if (rs_out_open ?s0 \<or> rs_err_open ?s0) \<and> 0 < lp_poll lp
        then (case drain_stream False (lp_out_event lp) (lp_out_fail lp) (Some cb) ?s0 of
                None \<Rightarrow> None
              | Some s1 \<Rightarrow> drain_stream True (lp_err_event lp) (lp_err_fail lp) (Some cb) s1)
        else Some ?s0) = Some s2"
      and rest: "(case lp_wait lp of WaitRunning \<Rightarrow> proc_loop (Some cb) dl lps s2
          | WaitExited st \<Rightarrow> Some (s2, st, False) | WaitError \<Rightarrow> Some (s2, 0, False)) = Some (s', st, t)"
      using Cons.prems(1) False by (auto simp: Let_def split: option.splits)
    have i2: "seen (wo @ lp_out lp) (we @ lp_err lp) s2 \<and> rs_out_fd s2 = rs_out_fd s \<and> rs_err_fd s2 = rs_err_fd s"
    proof (cases "(rs_out_open ?s0 \<or> rs_err_open ?s0) \<and> 0 < lp_poll lp")
      case True
      then obtain s1 where s1: "drain_stream False (lp_out_event lp) (lp_out_fail lp) (Some cb) ?s0 = Some s1"
        "drain_stream True (lp_err_event lp) (lp_err_fail lp) (Some cb) s1 = Some s2"
        using s2 by (auto split: option.splits)
      note d1 = drain_stream_seen [OF s1(1) i0]
      from drain_stream_seen [OF s1(2)] d1 fd0 show ?thesis by metis
    next
      case False
      then have "s2 = ?s0" using s2 by (metis option.inject)
      then show ?thesis using i0 fd0 by simp
    qed
    show ?thesis
    proof (cases "lp_wait lp")
      case WaitRunning
      then have "proc_loop (Some cb) dl lps s2 = Some (s', st, t)" using rest by simp
      moreover have "passes_run dl (lp # lps) = Suc (passes_run dl lps)"
        using False WaitRunning by (simp add: passes_run_def ends_loop_def)
      ultimately show ?thesis using Cons.IH [OF _ conjunct1 [OF i2]] i2 by simp
    qed (use rest i2 in \<open>simp_all add: passes_run_def ends_loop_def\<close>)
  qed
qed simp

lemma final_drain_seen:
  "final_drain k (Some cb) s = Some s' \<Longrightarrow> seen wo we s \<Longrightarrow>
     seen wo we s' \<and> rs_out_fd s' = rs_out_fd s \<and> rs_err_fd s' = rs_err_fd s"
proof (induction k arbitrary: s)
  case (Suc k)
  show ?case
  proof (cases "rs_out_open s \<or> rs_err_open s")
    case True
    then obtain s1 s2 where s12: "drain_stream False True None (Some cb) s = Some s1"
      "drain_stream True True None (Some cb) s1 = Some s2" "final_drain k (Some cb) s2 = Some s'"
      using Suc.prems(1) by (auto split: option.splits)
    note d1 = drain_stream_seen [OF s12(1) Suc.prems(2)]
    note d2 = drain_stream_seen [OF s12(2) conjunct1 [OF d1]]
    from Suc.IH [OF s12(3) conjunct1 [OF d2]] d1 d2 show ?thesis by simp
  next
    case False
    then show ?thesis using Suc.prems by simp
  qed
qed simp

lemma run_begin_seen:
  assumes "holds_file out_fd [] w" "holds_file err_fd [] w" "out_fd \<parallel> err_fd"
    and "steady (re_out_sc env)" "steady (re_err_sc env)" "sees u []"
  shows "seen [] [] (run_begin env u w out_fd err_fd)"
proof -
  have "run_inv [] [] [] (run_begin env u w out_fd err_fd)"
    using assms by (simp add: run_inv_def run_begin_def empty_pipe_def)
  then show ?thesis using assms(6) by (auto simp: seen_def run_begin_def)
qed

lemma proc_run_seen:
  assumes "capture_ready w out_path err_path r n k" "steady (re_out_sc env)" "steady (re_err_sc env)" "sees u []"
    and "agentbox_proc_run env t out_path err_path (Some cb) (u, w) = Some (Inr res, (u', w'))"
  shows "\<exists>cs. sees u' cs \<and> holds_file (r @ [n]) (stream_of False cs) w' \<and> holds_file (r @ [k]) (stream_of True cs) w'
    \<and> prefix (stream_of False cs) (written False env t) \<and> prefix (stream_of True cs) (written True env t)
    \<and> (\<forall>c \<in> set cs. length (snd c) \<le> 8192)"
proof -
  obtain w2 s1 st to s2 where
    o: "holds_file (r @ [n]) [] w2" "holds_file (r @ [k]) [] w2" "(r @ [n]) \<parallel> (r @ [k])"
    and l: "proc_loop (Some cb) (re_start env + t * 1000) (re_passes env) (run_begin env u w2 (r @ [n]) (r @ [k])) = Some (s1, st, to)"
    "final_drain 4 (Some cb) (feed_pass (re_late env) s1) = Some s2" "u' = rs_user s2" "w' = rs_world s2"
    by (rule proc_run_states [OF assms(1,5)])
  have "seen [] [] (run_begin env u w2 (r @ [n]) (r @ [k]))" by (rule run_begin_seen [OF o assms(2-4)])
  note j = proc_loop_seen [OF l(1) this]
  from final_drain_seen [OF l(2) feed_pass_seen [OF conjunct1 [OF j]]]
  have i: "seen (written False env t) (written True env t) s2" "rs_out_fd s2 = r @ [n]" "rs_err_fd s2 = r @ [k]"
    using j by (simp_all add: written_def feed_pass_def run_begin_def)
  then show ?thesis
    unfolding l(3,4) seen_def run_inv_def by (metis prefixI)
qed

end


text \<open>The supervisor's callback sends every chunk as a frame of its own.\<close>

definition client_saw :: "bytes \<Rightarrow> sock \<Rightarrow> chunks \<Rightarrow> bool" where
  "client_saw before sk cs \<longleftrightarrow>
     steady (sk_wr sk) \<and> sk_out sk = before @ concat (map (\<lambda>(e, b). frame (chunk_payload e b)) cs)"

interpretation to_client: chunk_sink send_chunk_to_client "client_saw before" for before
  by unfold_locales (auto simp: client_saw_def send_chunk_to_client_def dest!: send_frame_steady)

text \<open>The exit codes.\<close>

lemma exit_code_exited:
  assumes "c < 256"
  shows "exit_code_of False (word_of_nat (c * 256)) = int c"
proof -
  have u: "uint (word_of_nat (c * 256) :: 32 word) = int (c * 256)" using assms by (intro uint_small) simp
  have "int (c * 256) mod 128 = 0" "int (c * 256) div 256 mod 256 = int c" using assms by auto
  then show ?thesis unfolding exit_code_of_def WIFEXITED_mod WEXITSTATUS_div u by simp
qed

lemma exit_code_signalled:
  assumes "0 < s" "s < 127" "core \<in> {0, 128}"
  shows "exit_code_of False (word_of_nat (s + core)) = 128 + int s"
proof -
  have "uint (word_of_nat (s + core) :: 32 word) = int (s + core)" using assms by (intro uint_small) auto
  then have u: "uint (word_of_nat (s + core) :: 32 word) mod 128 = int s" using assms by auto
  have "WIFSIGNALED (word_of_nat (s + core))" using assms(1,2) by (intro WIFSIGNALED_range) (simp_all add: u del: of_nat_add)
  then show ?thesis
    using assms(1) unfolding exit_code_of_def WIFEXITED_mod WTERMSIG_mod u by simp
qed

end
