(* ===== verification/Dispatch.thy ===== *)
theory Dispatch
  imports Supervisor Proc
begin

text \<open>
  \<^verbatim>\<open>agentbox_supervisor_main\<close> of \<^verbatim>\<open>src/c/agentbox_core.c\<close>: the start-up with its error exits, the
  dispatch of one request to its handler with the response it sends, and the request loop.
\<close>

section \<open>One request\<close>

text \<open>
  What the kernel and the command do during a RUN, given the working directory and the command
  text: the script of the run and the change the command makes to the tree. The other verbs do not
  look at it.
\<close>

record command =
  cm_env :: "string \<Rightarrow> string \<Rightarrow> run_env"
  cm_effect :: "string \<Rightarrow> string \<Rightarrow> world \<Rightarrow> world"

type_synonym served = "engine \<times> sock \<times> bool"

definition serve_checkpoint :: "bytes \<Rightarrow> engine \<Rightarrow> sock \<Rightarrow> served option" where
  "serve_checkpoint cursor e sk =
     (let tag = fst (next_field cursor); (r, e1) = handle_checkpoint tag e in
      (case r of
         Inr ckpt_id \<Rightarrow> map_option (\<lambda>sk1. (e1, sk1, False)) (send_ok sk ckpt_id)
       | Inl rc \<Rightarrow> map_option (\<lambda>sk1. (e1, sk1, False)) (send_err sk rc ''checkpoint failed'')))"

definition serve_rollback :: "bytes \<Rightarrow> engine \<Rightarrow> sock \<Rightarrow> served option" where
  "serve_rollback cursor e sk =
     (let target = fst (next_field cursor); (rc, e1) = handle_rollback (Some target) e in
      map_option (\<lambda>sk1. (e1, sk1, False))
        (if rc = AGENTBOX_OK then send_ok sk [] else send_err sk rc ''rollback failed''))"

definition serve_commit :: "engine \<Rightarrow> sock \<Rightarrow> served option" where
  "serve_commit e sk =
     (let (rc, e1) = handle_commit e in
      map_option (\<lambda>sk1. (e1, sk1, False))
        (if rc = AGENTBOX_OK then send_ok sk [] else send_err sk rc ''commit failed''))"

text \<open>
  The text of a diff: the count and one line per path, printed piece by piece into a buffer of
  \<open>diff_bufcap\<close> bytes, which holds it (\<open>diff_text_fits\<close>).
\<close>

definition diff_bufcap :: "string list \<Rightarrow> nat" where
  "diff_bufcap paths = 64 + (\<Sum>p\<leftarrow>paths. length p + 1)"

fun diff_text_loop :: "string list \<Rightarrow> nat \<Rightarrow> string \<Rightarrow> string" where
  "diff_text_loop [] cap buf = buf"
| "diff_text_loop (p # ps) cap buf =
     diff_text_loop ps cap (buf @ snprintf (cap - length buf) (p @ [LF]))"

definition diff_text :: "string list \<Rightarrow> string" where
  "diff_text paths =
     diff_text_loop paths (diff_bufcap paths)
       (snprintf (diff_bufcap paths) (dec_of_nat (length paths) @ [LF]))"

definition serve_diff :: "engine \<Rightarrow> sock \<Rightarrow> served option" where
  "serve_diff e sk =
     (let (r, e1) = handle_diff e in
      (case r of
         Inr paths \<Rightarrow> map_option (\<lambda>sk1. (e1, sk1, False)) (send_ok sk (diff_text paths))
       | Inl rc \<Rightarrow> map_option (\<lambda>sk1. (e1, sk1, False)) (send_err sk rc ''diff failed'')))"

definition run_file :: "supervisor_state \<Rightarrow> string \<Rightarrow> string" where
  "run_file st stream = snprintf AGENTBOX_PATH_LEN
     (runtime_dir st @ ''/run_'' @ dec_of_int (run_counter st) @ stream)"

definition run_text :: "exec_result \<Rightarrow> string" where
  "run_text res = snprintf (AGENTBOX_PATH_LEN * 2 + 128)
     (dec_of_int (exit_code res) @ LF # dec_of_int (if timed_out res then 1 else 0) @ LF #
      dec_of_int (duration_ms res) @ LF # stdout_path res @ LF # stderr_path res)"

text \<open>
  RUN: the command is the rest of the frame up to the first NUL. The capture files are opened, the
  output is drained and streamed, and the command's own writes appear in the tree.
\<close>

definition serve_run :: "command \<Rightarrow> bytes \<Rightarrow> engine \<Rightarrow> sock \<Rightarrow> served option" where
  "serve_run c cursor = (\<lambda>(st, gl, w) sk.
     (let (timeout_str, rest) = next_field cursor;
          cmd = c_str rest;
          timeout_sec = c_atoi timeout_str;
          out_path = run_file st ''_stdout.txt'';
          err_path = run_file st ''_stderr.txt'';
          st1 = st\<lparr>run_counter := run_counter st + 1\<rparr>
      in (case agentbox_proc_run (cm_env c (merged_dir st) cmd) timeout_sec out_path err_path (Some send_chunk_to_client) (sk, w) of
            None \<Rightarrow> None
          | Some (r, (sk1, w1)) \<Rightarrow>
              map_option (\<lambda>sk2. ((st1, gl, cm_effect c (merged_dir st) cmd w1), sk2, False))
                (case r of
                   Inr res \<Rightarrow> send_ok sk1 (run_text res)
                 | Inl rc \<Rightarrow> send_err sk1 rc ''run failed''))))"

definition serve_shutdown :: "engine \<Rightarrow> sock \<Rightarrow> served option" where
  "serve_shutdown e sk = map_option (\<lambda>sk1. (handle_shutdown e, sk1, True)) (send_ok sk [])"

text \<open>The chain of comparisons on the verb.\<close>

definition serve_request :: "command \<Rightarrow> bytes \<Rightarrow> engine \<Rightarrow> sock \<Rightarrow> served option" where
  "serve_request c req e sk =
     (let (verb, cursor) = next_field req in
      if verb = ''CHECKPOINT'' then serve_checkpoint cursor e sk
      else if verb = ''ROLLBACK'' then serve_rollback cursor e sk
      else if verb = ''COMMIT'' then serve_commit e sk
      else if verb = ''DIFF'' then serve_diff e sk
      else if verb = ''RUN'' then serve_run c cursor e sk
      else if verb = ''SHUTDOWN'' then serve_shutdown e sk
      else map_option (\<lambda>sk1. (e, sk1, False)) (send_err sk AGENTBOX_ERR_INVALID_ARGUMENT ''unknown verb''))"


section \<open>The request loop\<close>

definition world_of :: "engine \<Rightarrow> world" where
  "world_of = (\<lambda>(st, gl, w). w)"

text \<open>
  One command per request is at hand; a supervisor that runs out of them, or whose socket runs out
  of script, is still serving. A request that cannot be read ends the loop.
\<close>

fun serve_loop :: "command list \<Rightarrow> engine \<Rightarrow> sock \<Rightarrow> (engine \<times> sock) option" where
  "serve_loop cmds e sk = (case recv_frame (mem (world_of e)) sk of
     None \<Rightarrow> None
   | Some (None, sk1) \<Rightarrow> Some (e, sk1)
   | Some (Some req, sk1) \<Rightarrow> (case cmds of
       [] \<Rightarrow> None
     | c # cs \<Rightarrow> (case serve_request c req e sk1 of
         None \<Rightarrow> None
       | Some (e1, sk2, shutting_down) \<Rightarrow>
           if shutting_down then Some (e1, sk2) else serve_loop cs e1 sk2)))"

declare serve_loop.simps [simp del]


section \<open>The whole supervisor\<close>

text \<open>
  What happens before the loop: the outcome of the namespace entry, of the fork of the anchor
  process and of the allocation of the state. The exit status is 1 for the error exits. Killing
  and reaping the anchor has no effect on the modelled state.
\<close>

text \<open>The size of \<^verbatim>\<open>supervisor_state_t\<close> on a 64-bit machine: five paths, the counters, the table and its count.\<close>

definition sizeof_supervisor_state :: nat where
  "sizeof_supervisor_state = 5 * AGENTBOX_PATH_LEN + 16
     + AGENTBOX_MAX_CHECKPOINTS * (AGENTBOX_ID_LEN + AGENTBOX_TAG_LEN + AGENTBOX_PATH_LEN + 8) + 8"

definition agentbox_supervisor_main ::
  "errcode \<Rightarrow> bool \<Rightarrow> command list \<Rightarrow> cow_globals \<Rightarrow> string \<Rightarrow> string \<Rightarrow> world \<Rightarrow> sock
     \<Rightarrow> (int \<times> (engine option) \<times> sock) option" where
  "agentbox_supervisor_main ns_rc anchor_ok cmds gl workspace runtime w sk =
     (if ns_rc \<noteq> AGENTBOX_OK
      then map_option (\<lambda>sk1. (1, None, sk1))
             (send_err sk ns_rc ''namespace entry failed; run: sudo agentbox setup'')
      else if \<not> anchor_ok
      then map_option (\<lambda>sk1. (1, None, sk1)) (send_err sk AGENTBOX_ERR_GENERIC ''anchor fork failed'')
      else if \<not> mem w sizeof_supervisor_state
      then map_option (\<lambda>sk1. (1, None, sk1))
             (send_err sk AGENTBOX_ERR_GENERIC ''supervisor state allocation failed'')
      else (let (mount_rc, st, w1) = init_supervisor workspace runtime w in
        if mount_rc \<noteq> AGENTBOX_OK
        then map_option (\<lambda>sk1. (1, Some (st, gl, w1), sk1)) (send_err sk mount_rc ''initial overlay mount failed'')
        else (case send_ok sk ''ready'' of
            None \<Rightarrow> None
          | Some sk1 \<Rightarrow> map_option (\<lambda>(e, sk2). (0, Some e, sk2)) (serve_loop cmds (st, gl, w1) sk1))))"

end
