(* ===== verification/Client.thy ===== *)
theory Client
  imports Dispatch
begin

text \<open>
  The client side of \<^verbatim>\<open>src/c/agentbox_core.c\<close>: the public API, which turns each call into a
  request frame and reads the response. An error code is the C int it arrives as (\<^const>\<open>errnum\<close>
  for the codes of the header). As everywhere, \<^const>\<open>None\<close> means that a call on the socket is
  still blocked.
\<close>

section \<open>One request, one response\<close>

text \<open>\<^verbatim>\<open>agentbox_t\<close>, without the descriptor of the socket, which is passed beside it.\<close>

record box =
  bx_workspace_dir :: string
  bx_runtime_dir :: string
  bx_merged_dir :: string
  bx_supervisor_pid :: int
  bx_active :: bool

text \<open>Sending a request and receiving a frame; no frame is the code for a supervisor that is down.\<close>

definition ask :: "(nat \<Rightarrow> bool) \<Rightarrow> string \<Rightarrow> sock \<Rightarrow> (bytes option \<times> sock) option" where
  "ask alloc req sk = (case send_frame_str sk req of
     None \<Rightarrow> None
   | Some (rc, sk1) \<Rightarrow> if rc \<noteq> 0 then Some (None, sk1) else recv_frame alloc sk1)"

definition DOWN :: int where "DOWN = errnum AGENTBOX_ERR_SUPERVISOR_DOWN"

definition agentbox_checkpoint ::
  "(nat \<Rightarrow> bool) \<Rightarrow> string option \<Rightarrow> nat \<Rightarrow> sock \<Rightarrow> ((int \<times> string option) \<times> sock) option" where
  "agentbox_checkpoint alloc tag out_id_len sk =
     (let req = snprintf (AGENTBOX_TAG_LEN + 32) (''CHECKPOINT'' @ LF # (case tag of None \<Rightarrow> [] | Some t \<Rightarrow> t)) in
      (case ask alloc req sk of
         None \<Rightarrow> None
       | Some (None, sk1) \<Rightarrow> Some ((DOWN, None), sk1)
       | Some (Some resp, sk1) \<Rightarrow>
           (let (status, cursor) = next_field resp in
            if status = ''OK''
            then Some ((0, Some (snprintf out_id_len (fst (next_field cursor)))), sk1)
            else Some ((c_atoi (fst (next_field cursor)), None), sk1))))"

text \<open>The tail that rollback and commit have in common.\<close>

definition ask_code :: "(nat \<Rightarrow> bool) \<Rightarrow> string \<Rightarrow> sock \<Rightarrow> (int \<times> sock) option" where
  "ask_code alloc req sk = (case ask alloc req sk of
     None \<Rightarrow> None
   | Some (None, sk1) \<Rightarrow> Some (DOWN, sk1)
   | Some (Some resp, sk1) \<Rightarrow>
       (let (status, cursor) = next_field resp in
        Some (if status = ''OK'' then 0 else c_atoi (fst (next_field cursor)), sk1)))"

definition agentbox_rollback :: "(nat \<Rightarrow> bool) \<Rightarrow> string option \<Rightarrow> sock \<Rightarrow> (int \<times> sock) option" where
  "agentbox_rollback alloc checkpoint_id sk =
     ask_code alloc (snprintf (AGENTBOX_ID_LEN + 32)
       (''ROLLBACK'' @ LF # (case checkpoint_id of None \<Rightarrow> [] | Some i \<Rightarrow> i))) sk"

definition agentbox_commit :: "(nat \<Rightarrow> bool) \<Rightarrow> sock \<Rightarrow> (int \<times> sock) option" where
  "agentbox_commit alloc sk = ask_code alloc ''COMMIT'' sk"

fun take_fields :: "nat \<Rightarrow> bytes \<Rightarrow> string list" where
  "take_fields 0 cursor = []"
| "take_fields (Suc n) cursor = (let (f, rest) = next_field cursor in f # take_fields n rest)"

definition agentbox_diff :: "(nat \<Rightarrow> bool) \<Rightarrow> sock \<Rightarrow> ((int + string list) \<times> sock) option" where
  "agentbox_diff alloc sk = (case ask alloc ''DIFF'' sk of
     None \<Rightarrow> None
   | Some (None, sk1) \<Rightarrow> Some (Inl DOWN, sk1)
   | Some (Some resp, sk1) \<Rightarrow>
       (let (status, cursor) = next_field resp in
        if status \<noteq> ''OK'' then Some (Inl (c_atoi (fst (next_field cursor))), sk1)
        else (let (count_str, rest) = next_field cursor in
              Some (Inr (take_fields (c_strtoul count_str) rest), sk1))))"


section \<open>Running a command\<close>

text \<open>
  The response loop: CHUNK frames go to the callback, if there is one, and anything else ends it.
  Every frame takes at least four bytes off the socket, so the loop ends.
\<close>

record reply =
  rp_exit_code :: int
  rp_timed_out :: int
  rp_duration_ms :: int
  rp_stdout_path :: string
  rp_stderr_path :: string

lemma recv_all_shorter: "recv_all sk k = Some (0, got, sk') \<Longrightarrow> length (sk_in sk') + k = length (sk_in sk)"
  using recv_loop_result [of "sk_rd sk" k "[]" "sk_in sk"]
  by (fastforce simp: recv_all_def split: option.splits)

lemma recv_frame_shorter: "recv_frame alloc sk = Some (Some resp, sk') \<Longrightarrow> length (sk_in sk') < length (sk_in sk)"
  by (auto simp: recv_frame_def Let_def split: option.splits prod.splits if_splits dest!: recv_all_shorter)

definition parse_reply :: "bytes \<Rightarrow> reply" where
  "parse_reply cursor =
     (let (f1, c1) = next_field cursor; (f2, c2) = next_field c1; (f3, c3) = next_field c2;
          (f4, c4) = next_field c3; (f5, c5) = next_field c4
      in \<lparr>rp_exit_code = c_atoi f1, rp_timed_out = c_atoi f2, rp_duration_ms = c_atoll f3,
          rp_stdout_path = snprintf AGENTBOX_PATH_LEN f4, rp_stderr_path = snprintf AGENTBOX_PATH_LEN f5\<rparr>)"

function exec_loop ::
  "(nat \<Rightarrow> bool) \<Rightarrow> (bool \<Rightarrow> bytes \<Rightarrow> 'u \<Rightarrow> 'u) option \<Rightarrow> 'u \<Rightarrow> sock \<Rightarrow> ((int + reply) \<times> 'u \<times> sock) option" where
  "exec_loop alloc on_chunk u sk = (case recv_frame alloc sk of
     None \<Rightarrow> None
   | Some (None, sk1) \<Rightarrow> Some (Inl DOWN, u, sk1)
   | Some (Some resp, sk1) \<Rightarrow>
       (let (status, cursor) = next_field resp in
        if status = ''CHUNK''
        then (let (which, data) = next_field cursor;
                  is_stderr = (take 1 which = ''E'')
              in exec_loop alloc on_chunk (case on_chunk of None \<Rightarrow> u | Some cb \<Rightarrow> cb is_stderr data u) sk1)
        else if status = ''OK'' then Some (Inr (parse_reply cursor), u, sk1)
        else Some (Inl (c_atoi (fst (next_field cursor))), u, sk1)))"
  by pat_completeness auto
termination
  by (relation "measure (\<lambda>(alloc, cb, u, sk). length (sk_in sk))") (auto dest: recv_frame_shorter)

declare exec_loop.simps [simp del]

text \<open>The request holds the whole command: its buffer is as long as the command and 64 bytes.\<close>

definition agentbox_exec_streaming ::
  "(nat \<Rightarrow> bool) \<Rightarrow> string \<Rightarrow> int \<Rightarrow> (bool \<Rightarrow> bytes \<Rightarrow> 'u \<Rightarrow> 'u) option \<Rightarrow> 'u \<Rightarrow> sock
     \<Rightarrow> ((int + reply) \<times> 'u \<times> sock) option" where
  "agentbox_exec_streaming alloc cmd timeout_sec on_chunk u sk =
     (let req = snprintf (length cmd + 64) (''RUN'' @ LF # dec_of_int timeout_sec @ LF # cmd) in
      (case send_frame_str sk req of
         None \<Rightarrow> None
       | Some (rc, sk1) \<Rightarrow> if rc \<noteq> 0 then Some (Inl DOWN, u, sk1) else exec_loop alloc on_chunk u sk1))"

definition agentbox_exec :: "(nat \<Rightarrow> bool) \<Rightarrow> string \<Rightarrow> int \<Rightarrow> sock \<Rightarrow> ((int + reply) \<times> unit \<times> sock) option" where
  "agentbox_exec alloc cmd timeout_sec sk = agentbox_exec_streaming alloc cmd timeout_sec None () sk"


section \<open>Error texts\<close>

definition agentbox_strerror :: "int \<Rightarrow> string" where
  "agentbox_strerror code =
     (if code = errnum AGENTBOX_OK then ''success''
      else if code = errnum AGENTBOX_ERR_GENERIC then ''generic error''
      else if code = errnum AGENTBOX_ERR_NAMESPACE_UNAVAILABLE
        then ''namespace unavailable (run: sudo agentbox setup)''
      else if code = errnum AGENTBOX_ERR_MOUNT_FAILED then ''overlay mount failed''
      else if code = errnum AGENTBOX_ERR_CHECKPOINT_NOT_FOUND then ''checkpoint not found''
      else if code = errnum AGENTBOX_ERR_IO then ''I/O error''
      else if code = errnum AGENTBOX_ERR_TIMEOUT then ''timed out''
      else if code = errnum AGENTBOX_ERR_SUPERVISOR_DOWN then ''supervisor process is not responding''
      else if code = errnum AGENTBOX_ERR_INVALID_ARGUMENT then ''invalid argument''
      else if code = errnum AGENTBOX_ERR_FILESYSTEM_MISMATCH
        then ''workspace_dir and runtime_dir are on different filesystems''
      else if code = errnum AGENTBOX_ERR_PERMISSION_DENIED then ''permission denied''
      else if code = errnum AGENTBOX_ERR_CHECKPOINT_LIMIT_REACHED then ''checkpoint limit reached''
      else ''unknown error'')"

end
