(* ===== verification/Session.thy ===== *)
theory Session
  imports Failures Client
begin

text \<open>
  A client call and the supervisor's answer to it, put together: the supervisor reads the frame the
  client has written, runs the handler, writes one frame, and the client reads it and reports what
  the handler has returned. Both ends of the socket make progress with a script that is steady and
  long enough, which is what \<open>able\<close> says.
\<close>

section \<open>Reading a response\<close>

definition read_response :: "bytes \<Rightarrow> int + bytes" where
  "read_response resp = (let (st, cursor) = next_field resp in
     if st = ''OK'' then Inr cursor else Inl (c_atoi (fst (next_field cursor))))"

lemma read_ok_payload: "read_response (ok_payload d) = Inr d"
  using next_field_lf [of "''OK''" d] by (simp add: read_response_def ok_payload_def no_nul_def no_lf_def)

lemma length_dec_errnum: "length (dec_of_int (errnum c)) \<le> 2"
  by (cases c) (simp_all add: dec_of_int_def dec_of_nat.simps)

lemma read_err_payload: "read_response (err_payload c msg) = Inl (errnum c)"
proof -
  let ?n = "dec_of_int (errnum c)"
  have "err_payload c msg = ''ERR'' @ LF # ?n @ LF # take (506 - length ?n) msg"
    using length_dec_errnum [of c] by (simp add: err_payload_def snprintf_def take_Cons')
  moreover have "next_field (''ERR'' @ LF # ?n @ LF # take (506 - length ?n) msg) = (''ERR'', ?n @ LF # take (506 - length ?n) msg)"
    by (rule next_field_lf) (simp_all add: no_nul_def no_lf_def)
  moreover have "next_field (?n @ LF # take (506 - length ?n) msg) = (?n, take (506 - length ?n) msg)"
    by (rule next_field_lf) simp_all
  moreover have "c_atoi ?n = errnum c"
    using c_atoi_dec [of "errnum c" "[]"] errnum_range [of c] by (simp add: ends_number_def)
  ultimately show ?thesis by (simp add: read_response_def)
qed

text \<open>
  The contract of a response format: what the two writers put down, the reader tells apart.
\<close>

locale response_format =
  fixes ok :: "string \<Rightarrow> bytes"
    and err :: "errcode \<Rightarrow> string \<Rightarrow> bytes"
    and read :: "bytes \<Rightarrow> int + bytes"
  assumes read_ok: "read (ok d) = Inr d"
    and read_err: "read (err c msg) = Inl (errnum c)"
begin

lemma read_outcome:
  "read (case r of Inr d \<Rightarrow> ok d | Inl c \<Rightarrow> err c msg) = (case r of Inr d \<Rightarrow> Inr d | Inl c \<Rightarrow> Inl (errnum c))"
  by (simp add: read_ok read_err split: sum.split)

lemma ok_not_err: "ok d \<noteq> err c msg"
  using read_ok [of d] read_err [of c msg] by auto

end

interpretation response: response_format ok_payload err_payload read_response
  by unfold_locales (rule read_ok_payload, rule read_err_payload)


section \<open>One exchange\<close>

text \<open>A socket end that can still move \<open>r\<close> bytes in and \<open>w\<close> bytes out.\<close>

definition able :: "nat \<Rightarrow> nat \<Rightarrow> sock \<Rightarrow> bool" where
  "able r w sk \<longleftrightarrow> steady (sk_rd sk) \<and> steady (sk_wr sk) \<and> r \<le> moves (sk_rd sk) \<and> w \<le> moves (sk_wr sk)"

text \<open>For the witnesses: a socket end with unread bytes, and a command that writes nothing.\<close>

definition demo_end :: "bytes \<Rightarrow> sock" where
  "demo_end inq = \<lparr>sk_in = inq, sk_out = [], sk_rd = replicate 6000 (Ret 1), sk_wr = replicate 6000 (Ret 1)\<rparr>"

definition demo_pass :: loop_pass where
  "demo_pass = \<lparr>lp_now = 5, lp_out = ''hi'', lp_err = [], lp_out_closed = True, lp_err_closed = True, lp_poll = 1,
     lp_out_event = True, lp_err_event = False, lp_out_fail = None, lp_err_fail = None, lp_wait = WaitExited 512\<rparr>"

definition demo_env :: run_env where
  "demo_env = \<lparr>re_pipe_out = True, re_pipe_err = True, re_fork = True, re_start = 3, re_end = 9, re_passes = [demo_pass],
     re_kill_status = 9, re_late = demo_pass\<lparr>lp_out := [], lp_err := ''no''\<rparr>,
     re_out_sc = replicate 4 (Ret 9), re_err_sc = replicate 4 (Ret 9)\<rparr>"

definition demo_command :: command where
  "demo_command = \<lparr>cm_env = (\<lambda>cwd cmd. demo_env), cm_effect = (\<lambda>cwd cmd w. w)\<rparr>"

lemma demo_end_able: "r \<le> 6000 \<Longrightarrow> w \<le> 6000 \<Longrightarrow> able r w (demo_end inq)"
  using moves_replicate [of 6000] by (simp add: able_def demo_end_def steady_def del: replicate.simps)

lemma demo_mem: "\<forall>n. mem (world_of (st, gl, demo2 up)) n" "\<forall>n. mem (world_of (st, gl, demo1)) n"
  by (simp_all add: world_of_def demo1_def demo2_def demo_world_def)

lemma send_frame_able:
  assumes "able r w sk" "length p + 4 \<le> w"
  obtains sk' where "send_frame sk p = Some (0, sk')" "sk_out sk' = sk_out sk @ frame p"
    "sk_in sk' = sk_in sk" "able r (w - (length p + 4)) sk'"
proof -
  have "steady (sk_wr sk)" "length p + 4 \<le> moves (sk_wr sk)" using assms by (simp_all add: able_def)
  then obtain sc where "send_frame sk p = Some (0, sk\<lparr>sk_out := sk_out sk @ frame p, sk_wr := sc\<rparr>)"
    "steady sc" "moves (sk_wr sk) \<le> moves sc + length p + 4"
    by (rule send_frame_succeeds)
  with assms(1) show thesis
    by (intro that [of "sk\<lparr>sk_out := sk_out sk @ frame p, sk_wr := sc\<rparr>"]) (auto simp: able_def)
qed

lemma recv_frame_able:
  assumes "able r w sk" "length p + 4 \<le> r" "sk_in sk = frame p @ rest" "sendable p" "\<forall>n. alloc n"
  obtains sk' where "recv_frame alloc sk = Some (Some p, sk')" "sk_in sk' = rest"
    "sk_out sk' = sk_out sk" "able (r - (length p + 4)) w sk'"
proof -
  have "steady (sk_rd sk)" "length p + 4 \<le> moves (sk_rd sk)" "alloc (length p + 1)" using assms by (simp_all add: able_def)
  then obtain sc where "recv_frame alloc sk = Some (Some p, sk\<lparr>sk_in := rest, sk_rd := sc\<rparr>)"
    "steady sc" "moves (sk_rd sk) \<le> moves sc + length p + 4"
    using recv_frame_delivers [OF assms(3,4)] by blast
  with assms(1) show thesis by (intro that [of "sk\<lparr>sk_in := rest, sk_rd := sc\<rparr>"]) (auto simp: able_def)
qed

lemma ask_answered:
  assumes "able (length p + 4) (length req + 4) sk" "\<forall>n. alloc n" "no_nul req" "sendable p" "sk_in sk = frame p @ rest"
  obtains sk' where "ask alloc req sk = Some (Some p, sk')" "sk_out sk' = sk_out sk @ frame req" "sk_in sk' = rest"
proof -
  obtain sk1 where s: "send_frame sk req = Some (0, sk1)" "sk_out sk1 = sk_out sk @ frame req"
    "sk_in sk1 = frame p @ rest" "able (length p + 4) 0 sk1"
    using send_frame_able [OF assms(1)] assms(5) by (metis diff_self_eq_0 le_refl)
  from recv_frame_able [OF s(4) _ s(3) assms(4,2)] obtain sk2 where
    "recv_frame alloc sk1 = Some (Some p, sk2)" "sk_in sk2 = rest" "sk_out sk2 = sk_out sk1"
    by auto
  with s(1,2) assms(3) show thesis by (intro that [of sk2]) (simp_all add: ask_def send_frame_str_def)
qed

text \<open>
  The supervisor, in its loop, answers a request that is next in its socket and goes on from the
  engine \<open>e'\<close>; and whenever the client has that answer next in its own socket, its call sends the
  request and returns \<open>r\<close>. Both need to move at most \<open>n\<close> bytes for the answer.
\<close>

definition exchange ::
  "nat \<Rightarrow> command \<Rightarrow> engine \<Rightarrow> sock \<Rightarrow> bytes \<Rightarrow> engine \<Rightarrow> (sock \<Rightarrow> ('r \<times> sock) option) \<Rightarrow> 'r \<Rightarrow> bool" where
  "exchange n c e ss request e' call r \<longleftrightarrow>
     (\<exists>ss' answer. length answer \<le> n \<and> sk_in ss = frame request @ sk_in ss' \<and> sk_out ss' = sk_out ss @ answer
        \<and> (\<forall>cs. serve_loop (c # cs) e ss = serve_loop cs e' ss')
        \<and> (\<forall>sk rest. able n (length request + 4) sk \<longrightarrow> sk_in sk = answer @ rest \<longrightarrow>
             (\<exists>sk'. call sk = Some (r, sk') \<and> sk_out sk' = sk_out sk @ frame request \<and> sk_in sk' = rest)))"

text \<open>
  The contract of a call with one request and one response: the client sends the request and
  decodes the response, the supervisor serves it with a handler and sends what it has to say.
\<close>

locale rpc =
  fixes alloc :: "nat \<Rightarrow> bool"
    and call :: "sock \<Rightarrow> ('r \<times> sock) option"
    and request :: bytes
    and decode :: "bytes option \<Rightarrow> 'r"
    and serve :: "engine \<Rightarrow> bytes \<times> engine"
  assumes call: "call sk = map_option (\<lambda>(resp, sk1). (decode resp, sk1)) (ask alloc request sk)"
    and request: "no_nul request" "sendable request"
    and served: "serve_request c request e ss
      = map_option (\<lambda>x. (snd (serve e), snd x, False)) (send_frame_str ss (fst (serve e)))"
begin

lemma exchanged:
  assumes "\<forall>n. alloc n" "\<forall>n. mem (world_of e) n" "sk_in ss = frame request @ later"
    and "able (length request + 4) n ss" "length (fst (serve e)) + 4 \<le> n"
    and "no_nul (fst (serve e))" "sendable (fst (serve e))"
  shows "exchange n c e ss request (snd (serve e)) call (decode (Some (fst (serve e))))"
proof -
  let ?a = "fst (serve e)"
  obtain ss1 where r: "recv_frame (mem (world_of e)) ss = Some (Some request, ss1)" "sk_in ss1 = later"
    "sk_out ss1 = sk_out ss" "able 0 n ss1"
    using recv_frame_able [OF assms(4) le_refl assms(3) request(2) assms(2)] by auto
  obtain ss2 where w: "send_frame ss1 ?a = Some (0, ss2)" "sk_out ss2 = sk_out ss1 @ frame ?a" "sk_in ss2 = sk_in ss1"
    by (rule send_frame_able [OF r(4) assms(5)]) blast
  have "serve_loop (c # cs) e ss = serve_loop cs (snd (serve e)) ss2" for cs
    using r(1) w(1) assms(6) by (subst serve_loop.simps) (simp add: served send_frame_str_def)
  moreover have "\<exists>sk'. call sk = Some (decode (Some ?a), sk') \<and> sk_out sk' = sk_out sk @ frame request \<and> sk_in sk' = rest"
    if sk: "able n (length request + 4) sk" and inq: "sk_in sk = frame ?a @ rest" for sk rest
  proof -
    have "able (length ?a + 4) (length request + 4) sk" using sk assms(5) by (simp add: able_def)
    then obtain sk' where "ask alloc request sk = Some (Some ?a, sk')" "sk_out sk' = sk_out sk @ frame request" "sk_in sk' = rest"
      using ask_answered [OF _ assms(1) request(1) assms(7) inq] by blast
    then show ?thesis by (simp add: call)
  qed
  moreover have "length (frame ?a) \<le> n" using assms(5) by (simp add: frame_def)
  ultimately show ?thesis
    unfolding exchange_def using w r(2,3) assms(3) by (intro exI [of _ ss2] exI [of _ "frame ?a"]) auto
qed

end


section \<open>The calls\<close>

text \<open>Decoding, as the client calls do it.\<close>

definition code_of :: "bytes option \<Rightarrow> int" where
  "code_of resp = (case resp of None \<Rightarrow> DOWN | Some p \<Rightarrow> (case read_response p of Inl c \<Rightarrow> c | Inr d \<Rightarrow> 0))"

definition id_of :: "nat \<Rightarrow> bytes option \<Rightarrow> int \<times> string option" where
  "id_of n resp = (case resp of None \<Rightarrow> (DOWN, None)
     | Some p \<Rightarrow> (case read_response p of Inl c \<Rightarrow> (c, None) | Inr d \<Rightarrow> (0, Some (snprintf n (fst (next_field d))))))"

definition paths_of :: "bytes option \<Rightarrow> int + string list" where
  "paths_of resp = (case resp of None \<Rightarrow> Inl DOWN
     | Some p \<Rightarrow> (case read_response p of Inl c \<Rightarrow> Inl c
         | Inr d \<Rightarrow> (let (n, rest) = next_field d in Inr (take_fields (c_strtoul n) rest))))"

text \<open>What the supervisor sends back, with the engine it leaves.\<close>

definition code_reply :: "string \<Rightarrow> errcode \<times> engine \<Rightarrow> bytes \<times> engine" where
  "code_reply msg = (\<lambda>(rc, e). (c_str (if rc = AGENTBOX_OK then ok_payload [] else err_payload rc msg), e))"

definition text_reply :: "string \<Rightarrow> (errcode + string) \<times> engine \<Rightarrow> bytes \<times> engine" where
  "text_reply msg = (\<lambda>(r, e). (c_str (case r of Inr d \<Rightarrow> ok_payload d | Inl rc \<Rightarrow> err_payload rc msg), e))"

lemma send_frame_str_c_str [simp]: "send_frame_str sk (c_str p) = send_frame_str sk p"
  by (simp add: send_frame_str_def)

lemma ask_code_decodes: "ask_code alloc req sk = map_option (\<lambda>(resp, sk1). (code_of resp, sk1)) (ask alloc req sk)"
  by (auto simp: ask_code_def code_of_def read_response_def split: option.splits prod.splits)

lemma verb_field: "no_nul v \<Longrightarrow> no_lf v \<Longrightarrow> next_field (v @ LF # rest) = (v, rest)"
  by (rule next_field_lf)

text \<open>Commit.\<close>

interpretation commit_rpc: rpc "\<lambda>n. True" "agentbox_commit (\<lambda>n. True)" "''COMMIT''" code_of
  "\<lambda>e. code_reply ''commit failed'' (handle_commit e)"
proof unfold_locales
  show "agentbox_commit (\<lambda>n. True) sk = map_option (\<lambda>(resp, sk1). (code_of resp, sk1)) (ask (\<lambda>n. True) ''COMMIT'' sk)" for sk
    by (simp add: agentbox_commit_def ask_code_decodes)
  show "serve_request c ''COMMIT'' e ss = map_option (\<lambda>x. (snd (code_reply ''commit failed'' (handle_commit e)), snd x, False))
      (send_frame_str ss (fst (code_reply ''commit failed'' (handle_commit e))))" for c e ss
    using next_field_last [of "''COMMIT''"]
    by (simp add: serve_request_def serve_commit_def code_reply_def send_ok_def send_err_def no_nul_def no_lf_def
        option.map_comp o_def prod.case_eq_if)
qed (simp_all add: no_nul_def sendable_def MAX_FRAME_LEN_def)

text \<open>Rollback to an id, which is a C string.\<close>

definition rollback_request :: "string \<Rightarrow> bytes" where
  "rollback_request i = snprintf (AGENTBOX_ID_LEN + 32) (''ROLLBACK'' @ LF # c_str i)"

interpretation rollback_rpc: rpc "\<lambda>n. True" "agentbox_rollback (\<lambda>n. True) (Some (c_str i))" "rollback_request i" code_of
  "\<lambda>e. code_reply ''rollback failed'' (handle_rollback (Some (fst (next_field (snd (next_field (rollback_request i)))))) e)" for i
proof unfold_locales
  have r: "rollback_request i = ''ROLLBACK'' @ LF # take 86 (c_str i)"
    by (simp add: rollback_request_def snprintf_def AGENTBOX_ID_LEN_def take_Cons')
  show "no_nul (rollback_request i)" unfolding r by (auto simp: no_nul_def c_str_def dest!: in_set_takeD set_takeWhileD)
  show "sendable (rollback_request i)" unfolding r by (simp add: sendable_def MAX_FRAME_LEN_def)
  show "agentbox_rollback (\<lambda>n. True) (Some (c_str i)) sk
      = map_option (\<lambda>(resp, sk1). (code_of resp, sk1)) (ask (\<lambda>n. True) (rollback_request i) sk)" for sk
    by (simp add: agentbox_rollback_def ask_code_decodes rollback_request_def)
  have v: "next_field (rollback_request i) = (''ROLLBACK'', take 86 (c_str i))"
    unfolding r by (rule next_field_lf) (simp_all add: no_nul_def no_lf_def)
  show "serve_request c (rollback_request i) e ss = map_option (\<lambda>x.
      (snd (code_reply ''rollback failed'' (handle_rollback (Some (fst (next_field (snd (next_field (rollback_request i)))))) e)), snd x, False))
      (send_frame_str ss (fst (code_reply ''rollback failed''
        (handle_rollback (Some (fst (next_field (snd (next_field (rollback_request i)))))) e))))" for c e ss
    unfolding v
    by (simp add: serve_request_def v serve_rollback_def code_reply_def send_ok_def send_err_def Let_def
        option.map_comp o_def prod.case_eq_if)
qed


text \<open>Checkpoint.\<close>

definition checkpoint_request :: "string \<Rightarrow> bytes" where
  "checkpoint_request tag = snprintf (AGENTBOX_TAG_LEN + 32) (''CHECKPOINT'' @ LF # c_str tag)"

interpretation checkpoint_rpc: rpc "\<lambda>n. True" "agentbox_checkpoint (\<lambda>n. True) (Some (c_str tag)) k" "checkpoint_request tag" "id_of k"
  "\<lambda>e. text_reply ''checkpoint failed'' (handle_checkpoint (fst (next_field (snd (next_field (checkpoint_request tag))))) e)" for tag k
proof unfold_locales
  have r: "checkpoint_request tag = ''CHECKPOINT'' @ LF # take 148 (c_str tag)"
    by (simp add: checkpoint_request_def snprintf_def AGENTBOX_TAG_LEN_def take_Cons')
  show "no_nul (checkpoint_request tag)" unfolding r by (auto simp: no_nul_def c_str_def dest!: in_set_takeD set_takeWhileD)
  show "sendable (checkpoint_request tag)" unfolding r by (simp add: sendable_def MAX_FRAME_LEN_def)
  show "agentbox_checkpoint (\<lambda>n. True) (Some (c_str tag)) k sk
      = map_option (\<lambda>(resp, sk1). (id_of k resp, sk1)) (ask (\<lambda>n. True) (checkpoint_request tag) sk)" for sk
    by (auto simp: agentbox_checkpoint_def checkpoint_request_def id_of_def read_response_def split: option.splits prod.splits)
  have v: "next_field (checkpoint_request tag) = (''CHECKPOINT'', take 148 (c_str tag))"
    unfolding r by (rule next_field_lf) (simp_all add: no_nul_def no_lf_def)
  show "serve_request c (checkpoint_request tag) e ss = map_option (\<lambda>x. (snd (text_reply ''checkpoint failed''
      (handle_checkpoint (fst (next_field (snd (next_field (checkpoint_request tag))))) e)), snd x, False))
      (send_frame_str ss (fst (text_reply ''checkpoint failed''
        (handle_checkpoint (fst (next_field (snd (next_field (checkpoint_request tag))))) e))))" for c e ss
    unfolding v
    by (simp add: serve_request_def v serve_checkpoint_def text_reply_def send_ok_def send_err_def Let_def
        option.map_comp o_def prod.case_eq_if split: sum.split)
qed

text \<open>Diff.\<close>

definition diff_reply :: "(errcode + string list) \<times> engine \<Rightarrow> bytes \<times> engine" where
  "diff_reply = (\<lambda>(r, e). text_reply ''diff failed'' (map_sum id diff_text r, e))"

interpretation diff_rpc: rpc "\<lambda>n. True" "agentbox_diff (\<lambda>n. True)" "''DIFF''" paths_of "\<lambda>e. diff_reply (handle_diff e)"
proof unfold_locales
  show "agentbox_diff (\<lambda>n. True) sk = map_option (\<lambda>(resp, sk1). (paths_of resp, sk1)) (ask (\<lambda>n. True) ''DIFF'' sk)" for sk
    by (auto simp: agentbox_diff_def paths_of_def read_response_def Let_def split: option.splits prod.splits)
  show "serve_request c ''DIFF'' e ss = map_option (\<lambda>x. (snd (diff_reply (handle_diff e)), snd x, False))
      (send_frame_str ss (fst (diff_reply (handle_diff e))))" for c e ss
    using next_field_last [of "''DIFF''"]
    by (simp add: serve_request_def serve_diff_def diff_reply_def text_reply_def send_ok_def send_err_def no_nul_def no_lf_def
        option.map_comp o_def prod.case_eq_if split: sum.split)
qed (simp_all add: no_nul_def sendable_def MAX_FRAME_LEN_def)


section \<open>What the caller gets\<close>

lemma err_payload_props: "length (err_payload rc msg) \<le> 511" "no_nul msg \<Longrightarrow> no_nul (err_payload rc msg)"
proof -
  show "length (err_payload rc msg) \<le> 511" by (simp add: err_payload_def snprintf_def)
  assume "no_nul msg"
  then have "no_nul (''ERR'' @ LF # dec_of_int (errnum rc) @ LF # msg)"
    using no_nul_dec(2) [of "errnum rc"] by (simp add: no_nul_def)
  then show "no_nul (err_payload rc msg)" unfolding err_payload_def by (rule no_nul_snprintf)
qed

lemma code_reply_props:
  assumes "no_nul msg"
  shows "length (fst (code_reply msg (rc, e))) \<le> 511" "no_nul (fst (code_reply msg (rc, e)))"
    "sendable (fst (code_reply msg (rc, e)))" "code_of (Some (fst (code_reply msg (rc, e)))) = errnum rc"
    "snd (code_reply msg (rc, e)) = e"
proof -
  have ok: "c_str (ok_payload []) = ok_payload []" by (simp add: ok_payload_def c_str_def)
  have err: "c_str (err_payload rc msg) = err_payload rc msg" by (rule c_str_id [OF err_payload_props(2) [OF assms]])
  show "length (fst (code_reply msg (rc, e))) \<le> 511" "sendable (fst (code_reply msg (rc, e)))"
    using err_payload_props(1) [of rc msg] ok err
    by (auto simp: code_reply_def sendable_def MAX_FRAME_LEN_def ok_payload_def)
  show "no_nul (fst (code_reply msg (rc, e)))" "snd (code_reply msg (rc, e)) = e" by (simp_all add: code_reply_def)
  show "code_of (Some (fst (code_reply msg (rc, e)))) = errnum rc"
    using ok err by (simp add: code_reply_def code_of_def response.read_ok response.read_err)
qed

text \<open>
  C18: A commit called by the client runs the supervisor's commit handler once, and the client gets
  the handler's code, whatever it is.
\<close>

theorem commit_call:
  assumes "\<forall>n. mem (world_of e) n" "sk_in ss = frame ''COMMIT'' @ later" "able 10 520 ss"
  shows "exchange 520 c e ss ''COMMIT'' (snd (handle_commit e)) (agentbox_commit (\<lambda>n. True)) (errnum (fst (handle_commit e)))"
proof -
  have m: "no_nul ''commit failed''" by (simp add: no_nul_def)
  obtain rc e1 where h: "handle_commit e = (rc, e1)" by (rule prod.exhaust)
  note r = code_reply_props [OF m, of rc e1]
  from commit_rpc.exchanged [of e ss later 520 c] show ?thesis
    using assms r by (simp add: h)
qed

lemma commit_call_witness:
  "exchange 520 demo_command (demo_state, demo_globals, demo1) (demo_end (frame ''COMMIT'')) ''COMMIT''
     (snd (handle_commit (demo_state, demo_globals, demo1))) (agentbox_commit (\<lambda>n. True))
     (errnum (fst (handle_commit (demo_state, demo_globals, demo1))))"
  by (rule commit_call [where later = "[]"]) (simp_all add: demo_mem demo_end_able, simp add: demo_end_def)

text \<open>
  C19: A rollback to an id without newlines runs the rollback handler on exactly this id, and the
  client gets its code.
\<close>

theorem rollback_call:
  assumes "no_nul i" "no_lf i" "length i \<le> 86"
    and "\<forall>n. mem (world_of e) n" "sk_in ss = frame (''ROLLBACK'' @ LF # i) @ later" "able 100 520 ss"
  shows "exchange 520 c e ss (''ROLLBACK'' @ LF # i) (snd (handle_rollback (Some i) e))
    (agentbox_rollback (\<lambda>n. True) (Some i)) (errnum (fst (handle_rollback (Some i) e)))"
proof -
  have m: "no_nul ''rollback failed''" by (simp add: no_nul_def)
  have i: "c_str i = i" using assms(1) by (rule c_str_id)
  have q: "rollback_request i = ''ROLLBACK'' @ LF # i"
    using assms(3) by (simp add: rollback_request_def i AGENTBOX_ID_LEN_def)
  have v: "fst (next_field (snd (next_field (''ROLLBACK'' @ LF # i)))) = i"
    using next_field_lf [of "''ROLLBACK''" i] next_field_last [OF assms(1,2)] by (simp add: no_nul_def no_lf_def)
  obtain rc e1 where h: "handle_rollback (Some i) e = (rc, e1)" by (rule prod.exhaust)
  note r = code_reply_props [OF m, of rc e1]
  have "able (length (''ROLLBACK'' @ LF # i) + 4) 520 ss" using assms(3,6) by (auto simp: able_def)
  with rollback_rpc.exchanged [of e ss i later 520 c] show ?thesis
    using assms r unfolding q v i h by simp
qed

lemma rollback_call_witness:
  "exchange 520 demo_command (demo_state2, demo_globals, demo2 demo_dir) (demo_end (frame (''ROLLBACK'' @ LF # ''ckpt-7'')))
     (''ROLLBACK'' @ LF # ''ckpt-7'') (snd (handle_rollback (Some ''ckpt-7'') (demo_state2, demo_globals, demo2 demo_dir)))
     (agentbox_rollback (\<lambda>n. True) (Some ''ckpt-7''))
     (errnum (fst (handle_rollback (Some ''ckpt-7'') (demo_state2, demo_globals, demo2 demo_dir))))"
  by (rule rollback_call [where later = "[]"])
    (simp_all add: demo_mem demo_end_able no_nul_def no_lf_def, simp add: demo_end_def)

lemma handle_checkpoint_id:
  "fst (handle_checkpoint tag e) = Inr i \<Longrightarrow> no_nul i \<and> no_lf i \<and> length i < AGENTBOX_ID_LEN"
proof -
  assume h: "fst (handle_checkpoint tag e) = Inr i"
  obtain st gl w where e: "e = (st, gl, w)" by (cases e) auto
  have n: "no_nul (''ckpt-'' @ dec_of_int k)" "no_lf (''ckpt-'' @ dec_of_int k)" for k
    using no_nul_dec(2) [of k] no_lf_dec(2) [of k] by (simp_all add: no_nul_def no_lf_def)
  have i: "i = snprintf AGENTBOX_ID_LEN (snprintf AGENTBOX_ID_LEN (''ckpt-'' @ dec_of_int (next_checkpoint_num st)))"
    using h unfolding e handle_checkpoint_def by (auto simp: Let_def split: prod.splits if_splits)
  show ?thesis
    unfolding i by (intro conjI no_nul_snprintf no_lf_snprintf n snprintf_length) (simp add: AGENTBOX_ID_LEN_def)
qed

text \<open>
  C20: A checkpoint called by the client runs the checkpoint handler with its tag, and the client
  gets the id of the new checkpoint or the handler's error code.
\<close>

theorem checkpoint_call:
  assumes "no_nul tag" "no_lf tag" "length tag \<le> 148"
    and "\<forall>n. mem (world_of e) n" "sk_in ss = frame (''CHECKPOINT'' @ LF # tag) @ later" "able 170 520 ss"
  shows "exchange 520 c e ss (''CHECKPOINT'' @ LF # tag) (snd (handle_checkpoint tag e))
    (agentbox_checkpoint (\<lambda>n. True) (Some tag) AGENTBOX_ID_LEN)
    (case fst (handle_checkpoint tag e) of Inr i \<Rightarrow> (0, Some i) | Inl rc \<Rightarrow> (errnum rc, None))"
proof -
  have m: "no_nul ''checkpoint failed''" by (simp add: no_nul_def)
  have i: "c_str tag = tag" using assms(1) by (rule c_str_id)
  have q: "checkpoint_request tag = ''CHECKPOINT'' @ LF # tag"
    using assms(3) by (simp add: checkpoint_request_def i AGENTBOX_TAG_LEN_def)
  have v: "fst (next_field (snd (next_field (''CHECKPOINT'' @ LF # tag)))) = tag"
    using next_field_lf [of "''CHECKPOINT''" tag] next_field_last [OF assms(1,2)] by (simp add: no_nul_def no_lf_def)
  let ?b = "fst (text_reply ''checkpoint failed'' (handle_checkpoint tag e))"
  have b: "length ?b \<le> 511 \<and> no_nul ?b \<and> snd (text_reply ''checkpoint failed'' (handle_checkpoint tag e)) = snd (handle_checkpoint tag e)
    \<and> id_of AGENTBOX_ID_LEN (Some ?b)
        = (case fst (handle_checkpoint tag e) of Inr i \<Rightarrow> (0, Some i) | Inl rc \<Rightarrow> (errnum rc, None))"
  proof (cases "fst (handle_checkpoint tag e)")
    case (Inl rc)
    have "c_str (err_payload rc ''checkpoint failed'') = err_payload rc ''checkpoint failed''"
      by (rule c_str_id [OF err_payload_props(2) [OF m]])
    then show ?thesis using Inl err_payload_props(1) [of rc "''checkpoint failed''"]
      using err_payload_props(2) [OF m, of rc]
      by (simp add: text_reply_def prod.case_eq_if id_of_def response.read_err)
  next
    case (Inr d)
    note d = handle_checkpoint_id [OF Inr]
    have "c_str (ok_payload d) = ok_payload d" using d by (intro c_str_id) (simp add: ok_payload_def no_nul_def)
    then show ?thesis using Inr d next_field_last [of d] no_nul_c_str [of "ok_payload d"]
      by (simp add: text_reply_def prod.case_eq_if id_of_def response.read_ok) (simp add: ok_payload_def AGENTBOX_ID_LEN_def)
  qed
  have "able (length (''CHECKPOINT'' @ LF # tag) + 4) 520 ss" using assms(3,6) by (auto simp: able_def)
  moreover have "sendable ?b" using b by (simp add: sendable_def MAX_FRAME_LEN_def)
  ultimately show ?thesis
    using checkpoint_rpc.exchanged [of e ss tag later 520 c AGENTBOX_ID_LEN] assms b unfolding q v i by simp
qed

lemma checkpoint_call_witness:
  "exchange 520 demo_command (demo_state, demo_globals, demo1) (demo_end (frame (''CHECKPOINT'' @ LF # ''t'')))
     (''CHECKPOINT'' @ LF # ''t'') (demo_state2, demo_globals, demo2 demo_dir)
     (agentbox_checkpoint (\<lambda>n. True) (Some ''t'') AGENTBOX_ID_LEN) (0, Some ''ckpt-0'')"
proof -
  have tag: "no_nul ''t''" "no_lf ''t''" "length ''t'' \<le> 148" by (simp_all add: no_nul_def no_lf_def)
  have inq: "sk_in (demo_end (frame (''CHECKPOINT'' @ LF # ''t''))) = frame (''CHECKPOINT'' @ LF # ''t'') @ []"
    by (simp add: demo_end_def)
  show ?thesis
    using checkpoint_call [OF tag demo_mem(2) [of demo_state demo_globals] inq demo_end_able, where c = demo_command]
    unfolding demo_checkpoint by simp
qed

end
