(* ===== verification/ProcRun.thy ===== *)
theory ProcRun
  imports Proc
begin

text \<open>
  What a run of \<^verbatim>\<open>agentbox_proc_run\<close> promises: that it comes back when the command ends or its
  deadline passes, how much of the output it keeps, and which exit code it reports.
\<close>

section \<open>A run comes back\<close>

lemma write_all_returns:
  "steady sc \<Longrightarrow> length buf \<le> moves sc \<Longrightarrow>
     \<exists>sc' w'. write_all_best_effort fd sc buf w = Some (sc', w') \<and> steady sc' \<and> moves sc \<le> moves sc' + length buf"
proof (induction fd sc buf w rule: write_all_best_effort.induct)
  case (4 fd n sc b bs w)
  show ?case
  proof (cases n)
    case 0
    then show ?thesis using 4 by simp
  next
    case (Suc m)
    have "length (drop n (b # bs)) \<le> moves sc" using "4.prems"(2) Suc by simp
    then obtain sc' w' where "write_all_best_effort fd sc (drop n (b # bs)) (fd_append fd (take n (b # bs)) w) = Some (sc', w')"
      "steady sc'" "moves sc \<le> moves sc' + length (drop n (b # bs))"
      using "4.IH" "4.prems"(1) by auto
    then show ?thesis using Suc by auto
  qed
qed auto

text \<open>
  The contract of a callback that returns: it needs at most \<open>length b + 12\<close> of the room its user data
  has for a chunk \<open>b\<close>.
\<close>

locale live_sink =
  fixes cb :: "bool \<Rightarrow> bytes \<Rightarrow> 'u \<Rightarrow> 'u option"
    and room :: "'u \<Rightarrow> nat"
  assumes accept: "length b + 12 \<le> room u \<Longrightarrow> \<exists>u'. cb e b u = Some u' \<and> room u \<le> room u' + length b + 12"
begin

text \<open>What \<open>k\<close> more reads may need.\<close>

definition fuelled :: "nat \<Rightarrow> 'u run_state \<Rightarrow> bool" where
  "fuelled k s \<longleftrightarrow> steady (rs_out_sc s) \<and> steady (rs_err_sc s)
     \<and> k * 8192 \<le> moves (rs_out_sc s) \<and> k * 8192 \<le> moves (rs_err_sc s) \<and> k * 8204 \<le> room (rs_user s)"

lemma drain_once_returns:
  assumes "fuelled (Suc k) s"
  shows "\<exists>eof s'. drain_once e fail (Some cb) s = Some (eof, s') \<and> fuelled k s'"
proof -
  let ?p = "if e then rs_err s else rs_out s"
  let ?b = "take 8192 (p_buf ?p)"
  have len: "length ?b \<le> 8192" by simp
  have f: "steady (rs_out_sc s)" "steady (rs_err_sc s)" "k * 8192 + 8192 \<le> moves (rs_out_sc s)"
    "k * 8192 + 8192 \<le> moves (rs_err_sc s)" "k * 8204 + 8204 \<le> room (rs_user s)"
    using assms by (simp_all add: fuelled_def)
  have weak: "fuelled k s" using f by (simp add: fuelled_def)
  show ?thesis
  proof (cases "fail = None \<and> ?b \<noteq> []")
    case False
    show ?thesis
    proof (cases fail)
      case None
      then have "take 8192 (p_buf ?p) = []" using False by blast
      then have "drain_once e fail (Some cb) s = Some (p_closed ?p, s)"
        unfolding drain_once_def Let_def None by (simp only: option.case if_True refl)
      then show ?thesis using weak by blast
    qed (use weak in \<open>auto simp: drain_once_def\<close>)
  next
    case True
    let ?sc = "if e then rs_err_sc s else rs_out_sc s"
    have "steady ?sc" "length ?b \<le> moves ?sc" using f len by (cases e; simp)+
    then obtain sc w where wr: "write_all_best_effort (if e then rs_err_fd s else rs_out_fd s) ?sc ?b (rs_world s) = Some (sc, w)"
      "steady sc" "moves ?sc \<le> moves sc + length ?b"
      using write_all_returns by blast
    have "length ?b + 12 \<le> room (rs_user s)" using f(5) len by linarith
    then obtain u where cb: "cb e ?b (rs_user s) = Some u" "room (rs_user s) \<le> room u + length ?b + 12"
      using accept by blast
    show ?thesis
      using True wr cb f len by (cases e) (auto simp: drain_once_def Let_def fuelled_def)
  qed
qed

lemma drain_stream_returns:
  assumes "fuelled (Suc k) s"
  shows "\<exists>s'. drain_stream e ev fail (Some cb) s = Some s' \<and> fuelled k s'"
proof -
  obtain eof s1 where d: "drain_once e fail (Some cb) s = Some (eof, s1)" "fuelled k s1"
    using drain_once_returns [OF assms] by blast
  then have "fuelled k (s1\<lparr>rs_err_open := False\<rparr>)" "fuelled k (s1\<lparr>rs_out_open := False\<rparr>)" "fuelled k s"
    using assms by (simp_all add: fuelled_def)
  then show ?thesis using d by (auto simp: drain_stream_def)
qed

lemma drain_both_returns:
  assumes "fuelled (Suc (Suc k)) s"
  shows "\<exists>s1 s2. drain_stream False ev fail (Some cb) s = Some s1 \<and> drain_stream True ev' fail' (Some cb) s1 = Some s2 \<and> fuelled k s2"
  using drain_stream_returns [OF assms] drain_stream_returns by meson

lemma proc_loop_returns:
  "fuelled (2 * length lps + k) s \<Longrightarrow> \<exists>lp \<in> set lps. dl \<le> lp_now lp \<or> lp_wait lp \<noteq> WaitRunning \<Longrightarrow>
     \<exists>s' st to. proc_loop (Some cb) dl lps s = Some (s', st, to) \<and> fuelled k s'"
proof (induction lps arbitrary: s)
  case (Cons lp lps)
  let ?s0 = "feed_pass lp s" and ?k = "2 * length lps + k"
  have f0: "fuelled (Suc (Suc ?k)) ?s0" using Cons.prems(1) by (simp add: fuelled_def feed_pass_def)
  have weak: "fuelled k x" if "fuelled ?k x" for x using that by (auto simp: fuelled_def)
  show ?case
  proof (cases "dl - lp_now lp \<le> 0")
    case True
    have "fuelled k ?s0" using f0 by (auto simp: fuelled_def)
    moreover have "proc_loop (Some cb) dl (lp # lps) s = Some (?s0, 0, True)" using True by simp
    ultimately show ?thesis by blast
  next
    case False
    obtain s1 s2 where d: "drain_stream False (lp_out_event lp) (lp_out_fail lp) (Some cb) ?s0 = Some s1"
      "drain_stream True (lp_err_event lp) (lp_err_fail lp) (Some cb) s1 = Some s2" "fuelled ?k s2"
      using drain_both_returns [OF f0] by blast
    have "fuelled ?k ?s0" using f0 by (auto simp: fuelled_def)
    then obtain s3 where s3: "(if (rs_out_open ?s0 \<or> rs_err_open ?s0) \<and> 0 < lp_poll lp
        then (case drain_stream False (lp_out_event lp) (lp_out_fail lp) (Some cb) ?s0 of
                None \<Rightarrow> None
              | Some s1 \<Rightarrow> drain_stream True (lp_err_event lp) (lp_err_fail lp) (Some cb) s1)
        else Some ?s0) = Some s3" "fuelled ?k s3"
      using d by (cases "(rs_out_open ?s0 \<or> rs_err_open ?s0) \<and> 0 < lp_poll lp") auto
    have loop: "proc_loop (Some cb) dl (lp # lps) s = (case lp_wait lp of WaitRunning \<Rightarrow> proc_loop (Some cb) dl lps s3
        | WaitExited st \<Rightarrow> Some (s3, st, False) | WaitError \<Rightarrow> Some (s3, 0, False))"
      using False s3(1) by (simp add: Let_def)
    show ?thesis
    proof (cases "lp_wait lp")
      case WaitRunning
      then have "\<exists>lp \<in> set lps. dl \<le> lp_now lp \<or> lp_wait lp \<noteq> WaitRunning" using Cons.prems(2) False by auto
      from Cons.IH [OF s3(2) this] show ?thesis unfolding loop WaitRunning by simp
    next
      case (WaitExited st)
      then show ?thesis using weak [OF s3(2)] unfolding loop by auto
    next
      case WaitError
      then show ?thesis using weak [OF s3(2)] unfolding loop by auto
    qed
  qed
qed simp

lemma final_drain_returns: "fuelled (2 * k + m) s \<Longrightarrow> \<exists>s'. final_drain k (Some cb) s = Some s' \<and> fuelled m s'"
proof (induction k arbitrary: s)
  case (Suc k)
  then have "fuelled (Suc (Suc (2 * k + m))) s" by simp
  from drain_both_returns [OF this] obtain s1 s2 where d: "drain_stream False True None (Some cb) s = Some s1"
    "drain_stream True True None (Some cb) s1 = Some s2" "fuelled (2 * k + m) s2" by blast
  from Suc.IH [OF d(3)] d(1,2) Suc.prems show ?case by (auto simp: fuelled_def)
qed simp

text \<open>The room for \<open>spare\<close> more chunks is left when the run is over.\<close>

lemma proc_run_returns:
  assumes "capture_ready w out_path err_path r n k" "steady (re_out_sc env)" "steady (re_err_sc env)"
    and "reads = 2 * length (re_passes env) + 8 + spare"
    and "reads * 8192 \<le> moves (re_out_sc env)" "reads * 8192 \<le> moves (re_err_sc env)" "reads * 8204 \<le> room u"
    and "re_pipe_out env" "re_pipe_err env" "re_fork env"
    and "\<exists>lp \<in> set (re_passes env). ends_loop (re_start env + t * 1000) lp"
  shows "\<exists>res u' w'. agentbox_proc_run env t out_path err_path (Some cb) (u, w) = Some (Inr res, (u', w')) \<and> spare * 8204 \<le> room u'"
proof -
  obtain w1 w2 where o: "sys_open_write out_path 420 w = (Inr (r @ [n]), w1)"
    "sys_open_write err_path 420 w1 = (Inr (r @ [k]), w2)"
    by (rule capture_opens [OF assms(1)])
  have e: "\<exists>lp \<in> set (re_passes env). re_start env + t * 1000 \<le> lp_now lp \<or> lp_wait lp \<noteq> WaitRunning"
    using assms(11) by (simp only: ends_loop_def)
  have "fuelled (2 * length (re_passes env) + (8 + spare)) (run_begin env u w2 (r @ [n]) (r @ [k]))"
    using assms(2-7) by (simp add: fuelled_def run_begin_def)
  from proc_loop_returns [OF this e] obtain s1 st to where
    l: "proc_loop (Some cb) (re_start env + t * 1000) (re_passes env) (run_begin env u w2 (r @ [n]) (r @ [k])) = Some (s1, st, to)"
    "fuelled (8 + spare) s1" by blast
  have "fuelled (2 * 4 + spare) (feed_pass (re_late env) s1)" using l(2) by (simp add: fuelled_def feed_pass_def)
  from final_drain_returns [OF this] obtain s2 where d: "final_drain 4 (Some cb) (feed_pass (re_late env) s1) = Some s2" "fuelled spare s2" by blast
  then have "spare * 8204 \<le> room (rs_user s2)" by (simp add: fuelled_def)
  then show ?thesis using o l(1) d(1) assms(8-10) by (simp add: agentbox_proc_run_def Let_def del: final_drain.simps)
qed

end

text \<open>The supervisor's callback needs room for the chunk, its header and the length of the frame.\<close>

definition send_room :: "sock \<Rightarrow> nat" where
  "send_room sk = (if steady (sk_wr sk) then moves (sk_wr sk) else 0)"

interpretation live_client: live_sink send_chunk_to_client send_room
proof unfold_locales
  fix b :: bytes and e and u :: sock
  assume a: "length b + 12 \<le> send_room u"
  then have "steady (sk_wr u)" "length (chunk_payload e b) + 4 \<le> moves (sk_wr u)"
    by (auto simp: send_room_def chunk_payload_def split: if_splits)
  then obtain sc where "send_frame u (chunk_payload e b) = Some (0, u\<lparr>sk_out := sk_out u @ frame (chunk_payload e b), sk_wr := sc\<rparr>)"
    "steady sc" "moves (sk_wr u) \<le> moves sc + length (chunk_payload e b) + 4"
    by (rule send_frame_succeeds)
  then show "\<exists>u'. send_chunk_to_client e b u = Some u' \<and> send_room u \<le> send_room u' + length b + 12"
    by (auto simp: send_chunk_to_client_def send_room_def chunk_payload_def)
qed

section \<open>How much of the output is kept\<close>

text \<open>One of the two streams.\<close>

definition pipe_of :: "bool \<Rightarrow> 'u run_state \<Rightarrow> pipe" where
  "pipe_of e s = (if e then rs_err s else rs_out s)"

definition open_of :: "bool \<Rightarrow> 'u run_state \<Rightarrow> bool" where
  "open_of e s = (if e then rs_err_open s else rs_out_open s)"

definition text_of :: "bool \<Rightarrow> loop_pass \<Rightarrow> bytes" where
  "text_of e lp = (if e then lp_err lp else lp_out lp)"

definition shut_of :: "bool \<Rightarrow> loop_pass \<Rightarrow> bool" where
  "shut_of e lp = (if e then lp_err_closed lp else lp_out_closed lp)"

definition fail_of :: "bool \<Rightarrow> loop_pass \<Rightarrow> errno option" where
  "fail_of e lp = (if e then lp_err_fail lp else lp_out_fail lp)"

lemmas stream_defs = pipe_of_def open_of_def text_of_def shut_of_def fail_of_def

text \<open>A stream the loop has given up holds nothing and gets nothing.\<close>

definition sound :: "bool \<Rightarrow> 'u run_state \<Rightarrow> bool" where
  "sound e s \<longleftrightarrow> open_of e s \<or> (p_buf (pipe_of e s) = [] \<and> p_closed (pipe_of e s))"

lemma drain_once_pipe:
  assumes "drain_once e fail cb s = Some (eof, s')"
  shows "pipe_of e' s' = (if e = e' \<and> fail = None then (pipe_of e s)\<lparr>p_buf := drop 8192 (p_buf (pipe_of e s))\<rparr> else pipe_of e' s)"
    and "open_of e' s' = open_of e' s"
    and "eof \<Longrightarrow> fail \<in> {None, Some EAGAIN} \<Longrightarrow> fail = None \<and> p_buf (pipe_of e s) = [] \<and> p_closed (pipe_of e s)"
  using assms by (auto simp: drain_once_def Let_def stream_defs split: option.splits if_splits prod.splits)

lemma sound_moved:
  assumes "sound e s" "pipe_of e s' = (pipe_of e s)\<lparr>p_buf := drop k (p_buf (pipe_of e s))\<rparr>"
    and "open_of e s \<Longrightarrow> open_of e s' \<or> (p_buf (pipe_of e s) = [] \<and> p_closed (pipe_of e s))"
  shows "sound e s'"
  using assms by (auto simp: sound_def)

lemma drain_stream_pipe:
  assumes "drain_stream e ev fail cb s = Some s'" "fail \<in> {None, Some EAGAIN}" "sound e' s"
  shows "sound e' s' \<and> p_closed (pipe_of e' s') = p_closed (pipe_of e' s)
    \<and> (ev \<longrightarrow> fail = None \<longrightarrow> p_buf (pipe_of e' s') = (if e = e' then drop 8192 (p_buf (pipe_of e' s)) else p_buf (pipe_of e' s)))"
proof (cases "open_of e s \<and> ev")
  case True
  then obtain eof s1 where d: "drain_once e fail cb s = Some (eof, s1)"
    and s': "s' = (if eof then (if e then s1\<lparr>rs_err_open := False\<rparr> else s1\<lparr>rs_out_open := False\<rparr>) else s1)"
    using assms(1) by (auto simp: drain_stream_def open_of_def split: option.splits prod.splits if_splits)
  have p: "pipe_of e' s' = pipe_of e' s1" "open_of e' s' = (if eof \<and> e = e' then False else open_of e' s1)"
    by (auto simp: s' stream_defs)
  note q = drain_once_pipe [OF d]
  have "\<exists>k. pipe_of e' s' = (pipe_of e' s)\<lparr>p_buf := drop k (p_buf (pipe_of e' s))\<rparr>"
    unfolding p(1) q(1) by (cases "e = e' \<and> fail = None") (auto intro: exI [of _ 0])
  then have "sound e' s'"
    using q(2,3) p(2) assms(2) by (auto split: if_splits intro!: sound_moved [OF assms(3)])
  then show ?thesis unfolding p(1) q(1) by auto
next
  case False
  then have "s' = s" using assms(1) unfolding drain_stream_def open_of_def by (metis option.inject)
  then show ?thesis using False assms(3) by (auto simp: sound_def)
qed

text \<open>
  A script that never writes to a stream it has closed, and lets no read of it fail except for lack
  of data; \<open>c\<close> says whether it is closed already, \<open>last\<close> comes after the passes.
\<close>

fun tidy :: "bool \<Rightarrow> bool \<Rightarrow> loop_pass \<Rightarrow> loop_pass list \<Rightarrow> bool" where
  "tidy e c final [] = (c \<longrightarrow> text_of e final = [])"
| "tidy e c final (lp # lps) = ((c \<longrightarrow> text_of e lp = []) \<and> (c \<or> shut_of e lp \<longrightarrow> text_of e final = [])
     \<and> fail_of e lp \<in> {None, Some EAGAIN} \<and> tidy e (c \<or> shut_of e lp) final lps)"

lemma tidy_final: "tidy e c final lps \<Longrightarrow> c \<Longrightarrow> text_of e final = []"
  by (cases lps) auto

lemma tidy_fails: "tidy e c final lps \<Longrightarrow> \<forall>lp \<in> set lps. fail_of e lp \<in> {None, Some EAGAIN}"
  by (induction lps arbitrary: c) auto

lemma feed_pass_of:
  "p_buf (pipe_of e (feed_pass lp s)) = p_buf (pipe_of e s) @ text_of e lp"
  "p_closed (pipe_of e (feed_pass lp s)) = (p_closed (pipe_of e s) \<or> shut_of e lp)"
  "open_of e (feed_pass lp s) = open_of e s"
  by (simp_all add: stream_defs feed_pass_def feed_def)

lemma feed_pass_sound: "sound e s \<Longrightarrow> (p_closed (pipe_of e s) \<Longrightarrow> text_of e lp = []) \<Longrightarrow> sound e (feed_pass lp s)"
  by (auto simp: sound_def feed_pass_of)

lemma proc_loop_sound:
  "proc_loop cb dl lps s = Some (s', st, to) \<Longrightarrow> sound e s \<Longrightarrow> tidy e (p_closed (pipe_of e s)) final lps \<Longrightarrow>
     (\<forall>lp \<in> set lps. fail_of (\<not> e) lp \<in> {None, Some EAGAIN}) \<Longrightarrow>
     sound e s' \<and> (p_closed (pipe_of e s') \<longrightarrow> text_of e final = [])"
proof (induction lps arbitrary: s)
  case (Cons lp lps)
  let ?s0 = "feed_pass lp s"
  have t: "tidy e (p_closed (pipe_of e ?s0)) final lps" "lp_out_fail lp \<in> {None, Some EAGAIN}" "lp_err_fail lp \<in> {None, Some EAGAIN}"
    using Cons.prems(3,4) by (cases e; simp add: feed_pass_of fail_of_def)+
  have s0: "sound e ?s0" using Cons.prems(2,3) by (intro feed_pass_sound) auto
  show ?case
  proof (cases "dl - lp_now lp \<le> 0")
    case True
    then show ?thesis using Cons.prems(1) s0 tidy_final [OF t(1)] by auto
  next
    case False
    obtain s2 where s2: "(if (rs_out_open ?s0 \<or> rs_err_open ?s0) \<and> 0 < lp_poll lp
        then (case drain_stream False (lp_out_event lp) (lp_out_fail lp) cb ?s0 of
                None \<Rightarrow> None
              | Some s1 \<Rightarrow> drain_stream True (lp_err_event lp) (lp_err_fail lp) cb s1)
        else Some ?s0) = Some s2"
      and rest: "(case lp_wait lp of WaitRunning \<Rightarrow> proc_loop cb dl lps s2
          | WaitExited st \<Rightarrow> Some (s2, st, False) | WaitError \<Rightarrow> Some (s2, 0, False)) = Some (s', st, to)"
      using Cons.prems(1) False by (auto simp: Let_def split: option.splits)
    have i2: "sound e s2 \<and> p_closed (pipe_of e s2) = p_closed (pipe_of e ?s0)"
    proof (cases "(rs_out_open ?s0 \<or> rs_err_open ?s0) \<and> 0 < lp_poll lp")
      case True
      then obtain s1 where s1: "drain_stream False (lp_out_event lp) (lp_out_fail lp) cb ?s0 = Some s1"
        "drain_stream True (lp_err_event lp) (lp_err_fail lp) cb s1 = Some s2"
        using s2 by (auto split: option.splits)
      from drain_stream_pipe [OF s1(1) t(2) s0] drain_stream_pipe [OF s1(2) t(3)] show ?thesis by simp
    next
      case False
      then have "s2 = ?s0" using s2 by (metis option.inject)
      then show ?thesis using s0 by simp
    qed
    have t2: "tidy e (p_closed (pipe_of e s2)) final lps" using i2 t(1) by simp
    show ?thesis
    proof (cases "lp_wait lp")
      case WaitRunning
      then have "proc_loop cb dl lps s2 = Some (s', st, to)" using rest by simp
      from Cons.IH [OF this conjunct1 [OF i2] t2] Cons.prems(4) show ?thesis by simp
    qed (use rest i2 tidy_final [OF t2] in auto)
  qed
qed simp

lemma final_drain_reads:
  "final_drain k cb s = Some s' \<Longrightarrow> sound e s \<Longrightarrow> p_buf (pipe_of e s') = drop (k * 8192) (p_buf (pipe_of e s))"
proof (induction k arbitrary: s)
  case (Suc k)
  show ?case
  proof (cases "rs_out_open s \<or> rs_err_open s")
    case True
    then obtain s1 s2 where d: "drain_stream False True None cb s = Some s1"
      "drain_stream True True None cb s1 = Some s2" "final_drain k cb s2 = Some s'"
      using Suc.prems(1) by (auto split: option.splits)
    note d1 = drain_stream_pipe [OF d(1) _ Suc.prems(2)]
    note d2 = drain_stream_pipe [OF d(2) _ conjunct1 [OF d1]]
    from Suc.IH [OF d(3) conjunct1 [OF d2]] d1 d2 show ?thesis by (cases e) (simp_all add: add.commute)
  next
    case False
    then show ?thesis using Suc.prems by (cases e) (auto simp: sound_def stream_defs)
  qed
qed simp

context chunk_sink begin

text \<open>What is left in a pipe after the last drain is what the stream lacks.\<close>

lemma seen_lacks:
  assumes "seen wo we s"
  obtains cs where "sees (rs_user s) cs" "holds_file (rs_out_fd s) (stream_of False cs) (rs_world s)"
    "holds_file (rs_err_fd s) (stream_of True cs) (rs_world s)"
    "stream_of False cs = take (length wo - length (p_buf (pipe_of False s))) wo"
    "stream_of True cs = take (length we - length (p_buf (pipe_of True s))) we"
    "length (p_buf (pipe_of False s)) \<le> length wo" "length (p_buf (pipe_of True s)) \<le> length we"
proof -
  obtain cs where cs: "run_inv wo we cs s" "sees (rs_user s) cs" using assms by (auto simp: seen_def)
  then have "wo = stream_of False cs @ p_buf (pipe_of False s)" "we = stream_of True cs @ p_buf (pipe_of True s)"
    by (simp_all add: run_inv_def pipe_of_def)
  with cs show thesis by (intro that [of cs]) (simp_all add: run_inv_def)
qed

lemma run_drained:
  assumes "capture_ready w out_path err_path r n k" "steady (re_out_sc env)" "steady (re_err_sc env)" "sees u []"
    and "agentbox_proc_run env t out_path err_path (Some cb) (u, w) = Some (Inr res, (u', w'))"
    and "\<And>e. tidy e False (re_late env) (re_passes env)"
  obtains w2 s1 st s2 where
    "proc_loop (Some cb) (re_start env + t * 1000) (re_passes env) (run_begin env u w2 (r @ [n]) (r @ [k])) = Some (s1, st, timed_out res)"
    "exit_code res = exit_code_of (timed_out res) (if timed_out res then re_kill_status env else st)"
    "seen (written False env t) (written True env t) (feed_pass (re_late env) s1)"
    "seen (written False env t) (written True env t) s2"
    "rs_user s2 = u'" "rs_world s2 = w'" "rs_out_fd s2 = r @ [n]" "rs_err_fd s2 = r @ [k]"
    "\<And>e. p_buf (pipe_of e s2) = drop 32768 (p_buf (pipe_of e (feed_pass (re_late env) s1)))"
proof -
  obtain w2 s1 st to s2 where
    o: "holds_file (r @ [n]) [] w2" "holds_file (r @ [k]) [] w2" "(r @ [n]) \<parallel> (r @ [k])"
    and l: "proc_loop (Some cb) (re_start env + t * 1000) (re_passes env) (run_begin env u w2 (r @ [n]) (r @ [k])) = Some (s1, st, to)"
    "final_drain 4 (Some cb) (feed_pass (re_late env) s1) = Some s2" "u' = rs_user s2" "w' = rs_world s2"
    and res: "timed_out res = to" "exit_code res = exit_code_of to (if to then re_kill_status env else st)"
    by (rule proc_run_states [OF assms(1,5)])
  let ?s = "run_begin env u w2 (r @ [n]) (r @ [k])"
  have "seen [] [] ?s" by (rule run_begin_seen [OF o assms(2-4)])
  note j = proc_loop_seen [OF l(1) this]
  have f: "seen (written False env t) (written True env t) (feed_pass (re_late env) s1)"
    using feed_pass_seen [OF conjunct1 [OF j]] by (simp add: written_def)
  have fails: "\<forall>lp \<in> set (re_passes env). fail_of e lp \<in> {None, Some EAGAIN}" for e
    using assms(6) [of e] tidy_fails by blast
  have b: "sound e ?s" "p_closed (pipe_of e ?s) = False" for e
    by (simp_all add: sound_def stream_defs run_begin_def empty_pipe_def)
  have "sound e (feed_pass (re_late env) s1)" for e
    using proc_loop_sound [OF l(1) b(1) _ fails, of e "re_late env"] assms(6) b(2) by (intro feed_pass_sound) auto
  from final_drain_reads [OF l(2) this]
  have d: "p_buf (pipe_of e s2) = drop 32768 (p_buf (pipe_of e (feed_pass (re_late env) s1)))" for e
    by simp
  have fd: "rs_out_fd s2 = r @ [n]" "rs_err_fd s2 = r @ [k]" "seen (written False env t) (written True env t) s2"
    using final_drain_seen [OF l(2) f] j by (simp_all add: feed_pass_def run_begin_def)
  show thesis by (rule that [of w2 s1 st s2]) (use l res f fd d in simp_all)
qed

lemma short_output_kept:
  assumes "capture_ready w out_path err_path r n k" "steady (re_out_sc env)" "steady (re_err_sc env)" "sees u []"
    and "agentbox_proc_run env t out_path err_path (Some cb) (u, w) = Some (Inr res, (u', w'))"
    and "\<And>e. tidy e False (re_late env) (re_passes env)"
    and "\<And>e. length (written e env t) \<le> 32768"
  obtains cs where "sees u' cs" "stream_of False cs = written False env t" "stream_of True cs = written True env t"
    "holds_file (r @ [n]) (written False env t) w'" "holds_file (r @ [k]) (written True env t) w'"
proof -
  obtain s1 s2 where f: "seen (written False env t) (written True env t) (feed_pass (re_late env) s1)"
    and s: "seen (written False env t) (written True env t) s2"
    "rs_user s2 = u'" "rs_world s2 = w'" "rs_out_fd s2 = r @ [n]" "rs_err_fd s2 = r @ [k]"
    and d: "\<And>e. p_buf (pipe_of e s2) = drop 32768 (p_buf (pipe_of e (feed_pass (re_late env) s1)))"
    by (rule run_drained [OF assms(1-6)]) blast
  have "length (p_buf (pipe_of e (feed_pass (re_late env) s1))) \<le> 32768" for e
    by (rule seen_lacks [OF f]) (use assms(7) [of e] in \<open>cases e; simp\<close>)
  then have "p_buf (pipe_of e s2) = []" for e unfolding d by simp
  then show thesis by (rule_tac seen_lacks [OF s(1)]) (use s(2-5) in \<open>auto intro: that\<close>)
qed

end


section \<open>The promises of a run\<close>

text \<open>A small world and a command that prints \<open>b\<close> and exits, for the examples.\<close>

definition run_world :: world where
  "run_world = \<lparr>fs = Dir 493 [] [], mtab = [], clock_ms = 7, umask = 18, refuse = (\<lambda>op s. None),
     wsize = (\<lambda>n. n), mem = (\<lambda>n. True), mount_answer = (\<lambda>a b. None), fuse_answer = (\<lambda>a b. None)\<rparr>"

definition run_pass :: "bytes \<Rightarrow> loop_pass" where
  "run_pass b = \<lparr>lp_now = 5, lp_out = b, lp_err = [], lp_out_closed = True, lp_err_closed = True, lp_poll = 1,
     lp_out_event = True, lp_err_event = True, lp_out_fail = None, lp_err_fail = None, lp_wait = WaitExited 0\<rparr>"

definition run_script :: "bytes \<Rightarrow> run_env" where
  "run_script b = \<lparr>re_pipe_out = True, re_pipe_err = True, re_fork = True, re_start = 3, re_end = 9, re_passes = [run_pass b],
     re_kill_status = 9, re_late = run_pass [], re_out_sc = replicate 99000 (Ret 1), re_err_sc = replicate 99000 (Ret 1)\<rparr>"

definition run_sink :: sock where
  "run_sink = \<lparr>sk_in = [], sk_out = [], sk_rd = [], sk_wr = replicate 99000 (Ret 1)\<rparr>"

lemma run_ready: "capture_ready run_world ''/o'' ''/e'' [] ''o'' ''e''"
proof -
  have "comps ''/o'' = [''o'']" "comps ''/e'' = [''e'']" by code_simp+
  then show ?thesis by (simp add: capture_ready_def run_world_def quiet_def names_def dir_at_def wf_name_def)
qed

lemma run_room:
  "steady (re_out_sc (run_script b))" "steady (re_err_sc (run_script b))"
  "moves (re_out_sc (run_script b)) = 99000" "moves (re_err_sc (run_script b)) = 99000"
  "send_room run_sink = 99000" "steady (sk_wr run_sink)"
  by (simp_all only: run_script_def run_sink_def send_room_def run_env.simps sock.simps moves_replicate steady_replicate if_True)

lemma run_script_parts:
  "re_passes (run_script b) = [run_pass b]" "re_late (run_script b) = run_pass []" "re_start (run_script b) = 3"
  "re_pipe_out (run_script b)" "re_pipe_err (run_script b)" "re_fork (run_script b)" "re_end (run_script b) = 9"
  by (simp_all add: run_script_def)

text \<open>
  C12: A run comes back with a result, and does not wait for output to end: when in some pass the
  deadline is over or the command is no longer running, and neither the capture files nor the
  client's socket block, every loop of \<^const>\<open>agentbox_proc_run\<close> ends. Each stream is read at most
  twice per pass and eight times at the end, 8192 bytes at a time.
\<close>

theorem run_comes_back:
  assumes "capture_ready w out_path err_path r n k" "steady (re_out_sc env)" "steady (re_err_sc env)"
    and "reads = 2 * length (re_passes env) + 8"
    and "reads * 8192 \<le> moves (re_out_sc env)" "reads * 8192 \<le> moves (re_err_sc env)" "reads * 8204 \<le> send_room sk"
    and "re_pipe_out env" "re_pipe_err env" "re_fork env"
    and "\<exists>lp \<in> set (re_passes env). ends_loop (re_start env + t * 1000) lp"
  shows "\<exists>res v. agentbox_proc_run env t out_path err_path (Some send_chunk_to_client) (sk, w) = Some (Inr res, v)"
  using live_client.proc_run_returns [OF assms(1-3) _ assms(5-11), where spare = 0] assms(4) by auto

lemma run_script_returns:
  "\<exists>res v. agentbox_proc_run (run_script b) 4 ''/o'' ''/e'' (Some send_chunk_to_client) (run_sink, run_world) = Some (Inr res, v)"
  using live_client.proc_run_returns [OF run_ready run_room(1,2) refl, where spare = 0 and t = 4 and u = run_sink]
  by (simp add: run_script_parts run_room(3-5)) (simp add: run_pass_def ends_loop_def)

lemma run_comes_back_witness:
  "\<exists>res v. agentbox_proc_run (run_script ''hi'') 4 ''/o'' ''/e'' (Some send_chunk_to_client) (run_sink, run_world) = Some (Inr res, v)"
  by (rule run_comes_back [OF run_ready run_room(1,2) refl]) (simp_all add: run_script_parts run_room(3-5), simp add: run_pass_def ends_loop_def)

text \<open>The pass that ends the loop.\<close>

definition last_pass :: "run_env \<Rightarrow> int \<Rightarrow> loop_pass option" where
  "last_pass env t = find (ends_loop (re_start env + t * 1000)) (re_passes env)"

lemma proc_loop_stops:
  "proc_loop cb dl lps s = Some (s', st, to) \<Longrightarrow>
     \<exists>lp. find (ends_loop dl) lps = Some lp \<and> (to \<longleftrightarrow> dl \<le> lp_now lp)
       \<and> (\<not> to \<longrightarrow> lp_wait lp = WaitExited st \<or> (lp_wait lp = WaitError \<and> st = 0))"
proof (induction lps arbitrary: s)
  case (Cons lp lps)
  show ?case
  proof (cases "ends_loop dl lp")
    case True
    then show ?thesis using Cons.prems by (auto simp: ends_loop_def Let_def split: option.splits if_splits wait_answer.splits)
  next
    case False
    then obtain s2 where "proc_loop cb dl lps s2 = Some (s', st, to)"
      using Cons.prems by (auto simp: ends_loop_def Let_def split: option.splits if_splits)
    from Cons.IH [OF this] False show ?thesis by simp
  qed
qed simp



text \<open>
  C13: Output that fits is kept in full: when a command writes no more than 32768 bytes to each stream,
  nothing after it has closed it, and no read fails, the capture files hold all it has written in
  the passes the run has seen, and the client has been sent the same bytes.
\<close>

theorem short_output_is_captured:
  assumes "capture_ready w out_path err_path r n k" "steady (re_out_sc env)" "steady (re_err_sc env)" "steady (sk_wr sk)"
    and "agentbox_proc_run env t out_path err_path (Some send_chunk_to_client) (sk, w) = Some (Inr res, (sk', w'))"
    and "\<And>e. tidy e False (re_late env) (re_passes env)"
    and "\<And>e. length (written e env t) \<le> 32768"
  shows "\<exists>cs. sk_out sk' = sk_out sk @ concat (map (\<lambda>(e, b). frame (chunk_payload e b)) cs)
    \<and> stream_of False cs = written False env t \<and> stream_of True cs = written True env t
    \<and> holds_file (r @ [n]) (written False env t) w' \<and> holds_file (r @ [k]) (written True env t) w'"
proof -
  have "client_saw (sk_out sk) sk []" using assms(4) by (simp add: client_saw_def)
  from to_client.short_output_kept [OF assms(1-3) this assms(5-7)] show ?thesis
    by (metis client_saw_def)
qed

lemma run_script_tidy: "tidy e False (re_late (run_script b)) (re_passes (run_script b))"
  unfolding run_script_parts by (cases e) (simp_all add: run_pass_def stream_defs)

lemma run_script_written: "written False (run_script b) 4 = b" "written True (run_script b) 4 = []"
  unfolding written_def run_script_parts by (simp_all add: passes_run_def run_pass_def ends_loop_def)

lemma short_output_is_captured_witness:
  "\<exists>res sk' w'. agentbox_proc_run (run_script ''hi'') 4 ''/o'' ''/e'' (Some send_chunk_to_client) (run_sink, run_world) = Some (Inr res, (sk', w'))
     \<and> holds_file [''o''] ''hi'' w' \<and> holds_file [''e''] [] w'"
proof -
  obtain res sk' w' where r: "agentbox_proc_run (run_script ''hi'') 4 ''/o'' ''/e'' (Some send_chunk_to_client) (run_sink, run_world) = Some (Inr res, (sk', w'))"
    using run_script_returns by (metis prod.exhaust)
  have "length (written e (run_script ''hi'') 4) \<le> 32768" for e by (cases e) (simp_all add: run_script_written)
  from short_output_is_captured [OF run_ready run_room(1,2,6) r run_script_tidy this]
  show ?thesis using r by (auto simp: run_script_written)
qed

lemma one_pass_reads:
  assumes "proc_loop cb dl [lp] s = Some (s1, st, to)" "lp_now lp < dl" "0 < lp_poll lp" "lp_out_event lp" "lp_err_event lp"
    and "\<And>e. fail_of e lp = None" "\<And>e. open_of e s"
  shows "p_buf (pipe_of e s1) = drop 8192 (p_buf (pipe_of e s) @ text_of e lp)"
proof -
  let ?s0 = "feed_pass lp s"
  have o: "sound e ?s0" "open_of False ?s0" for e using assms(7) by (simp_all add: sound_def feed_pass_of)
  have f: "lp_out_fail lp = None" "lp_err_fail lp = None" using assms(6) [of False] assms(6) [of True] by (simp_all add: fail_of_def)
  obtain s2 where d: "drain_stream False True None cb ?s0 = Some s2" "drain_stream True True None cb s2 = Some s1"
    using assms(1-5) o(2) f by (auto simp: Let_def open_of_def split: option.splits wait_answer.splits)
  note d1 = drain_stream_pipe [OF d(1) _ o(1)]
  from drain_stream_pipe [OF d(2) _ conjunct1 [OF d1]] d1 show ?thesis
    by (cases e) (simp_all add: feed_pass_of)
qed

text \<open>
  C35: Output that does not fit is lost without a trace: a command that prints \<open>b\<close> in one go, as much
  as a pipe holds, and exits with 0 before the loop comes round again is reported as a success, but
  only the first 40960 bytes are in the capture file.
\<close>

theorem long_output_is_cut:
  assumes "capture_ready w out_path err_path r n k" "steady (re_out_sc env)" "steady (re_err_sc env)"
    and "81920 \<le> moves (re_out_sc env)" "81920 \<le> moves (re_err_sc env)" "82040 \<le> send_room sk"
    and "re_pipe_out env" "re_pipe_err env" "re_fork env"
    and "re_passes env = [lp]" "lp_now lp < re_start env + t * 1000" "lp_wait lp = WaitExited 0"
    and "0 < lp_poll lp" "lp_out_event lp" "lp_err_event lp" "\<And>e. fail_of e lp = None"
    and "lp_out lp = b" "40960 < length b" "length b \<le> 65536"
    and "\<And>e. text_of e (re_late env) = []"
  shows "\<exists>res sk' w'. agentbox_proc_run env t out_path err_path (Some send_chunk_to_client) (sk, w) = Some (Inr res, (sk', w'))
    \<and> exit_code res = 0 \<and> \<not> timed_out res \<and> holds_file (r @ [n]) (take 40960 b) w' \<and> take 40960 b \<noteq> b"
proof -
  have "steady (sk_wr sk)" using assms(6) by (auto simp: send_room_def split: if_splits)
  then have cl: "client_saw (sk_out sk) sk []" by (simp add: client_saw_def)
  obtain res v where r: "agentbox_proc_run env t out_path err_path (Some send_chunk_to_client) (sk, w) = Some (Inr res, v)"
    using live_client.proc_run_returns [OF assms(1-3) refl, where spare = 0 and u = sk and t = t] assms(4-10,12) by (auto simp: ends_loop_def)
  obtain sk' w' where v: "v = (sk', w')" by (cases v)
  have td: "tidy e False (re_late env) (re_passes env)" for e using assms(10,16,20) by simp
  obtain w2 s1 st s2 where
    l: "proc_loop (Some send_chunk_to_client) (re_start env + t * 1000) (re_passes env) (run_begin env sk w2 (r @ [n]) (r @ [k])) = Some (s1, st, timed_out res)"
    and ex: "exit_code res = exit_code_of (timed_out res) (if timed_out res then re_kill_status env else st)"
    and s2: "to_client.seen (sk_out sk) (written False env t) (written True env t) s2" "rs_world s2 = w'" "rs_out_fd s2 = r @ [n]"
    and d: "\<And>e. p_buf (pipe_of e s2) = drop 32768 (p_buf (pipe_of e (feed_pass (re_late env) s1)))"
    by (rule to_client.run_drained [OF assms(1-3) cl r [unfolded v] td]) blast
  have op: "open_of e (run_begin env sk w2 (r @ [n]) (r @ [k]))" "p_buf (pipe_of e (run_begin env sk w2 (r @ [n]) (r @ [k]))) = []" for e
    by (simp_all add: stream_defs run_begin_def empty_pipe_def)
  have "p_buf (pipe_of False s1) = drop 8192 b"
    using one_pass_reads [OF l [unfolded assms(10)] assms(11,13-16) op(1), of False] op(2) assms(17) by (simp add: text_of_def)
  then have left: "length (p_buf (pipe_of False s2)) = length b - 40960" using d assms(20) by (simp add: feed_pass_of)
  have wr: "written False env t = b"
    using assms(20) [of False] by (simp add: written_def assms(10,17) passes_run_def text_of_def)
  have "timed_out res = False \<and> st = 0" using proc_loop_stops [OF l] assms(10-12) by (auto simp: ends_loop_def)
  then have "exit_code res = 0 \<and> \<not> timed_out res" using ex exit_code_exited [of 0] by simp
  moreover have "holds_file (r @ [n]) (take 40960 b) w'"
    by (rule to_client.seen_lacks [OF s2(1)]) (use left wr s2 assms(18) in simp)
  moreover have "length (take 40960 b) \<noteq> length b" using assms(18) by simp
  ultimately show ?thesis using r v by metis
qed

lemma long_output_is_cut_witness:
  "\<exists>res sk' w'. agentbox_proc_run (run_script (replicate 50000 CHR ''x'')) 4 ''/o'' ''/e'' (Some send_chunk_to_client) (run_sink, run_world)
       = Some (Inr res, (sk', w'))
     \<and> exit_code res = 0 \<and> \<not> timed_out res \<and> holds_file [''o''] (replicate 40960 CHR ''x'') w'"
proof -
  let ?b = "replicate 50000 CHR ''x''"
  have p: "lp_now (run_pass ?b) < re_start (run_script ?b) + 4 * 1000" "lp_wait (run_pass ?b) = WaitExited 0"
    "0 < lp_poll (run_pass ?b)" "lp_out_event (run_pass ?b)" "lp_err_event (run_pass ?b)" "\<And>e. fail_of e (run_pass ?b) = None"
    "lp_out (run_pass ?b) = ?b" "\<And>e. text_of e (re_late (run_script ?b)) = []"
    unfolding run_script_parts by (simp_all only: run_pass_def stream_defs loop_pass.simps if_cancel)
  have t: "take 40960 ?b = replicate 40960 CHR ''x''" by (simp only: take_replicate) simp
  have l: "40960 < length ?b" "length ?b \<le> 65536" by (simp_all only: length_replicate)
  have m: "81920 \<le> moves (re_out_sc (run_script ?b))" "81920 \<le> moves (re_err_sc (run_script ?b))" "82040 \<le> send_room run_sink"
    by (simp_all only: run_room)
  from long_output_is_cut [OF run_ready run_room(1,2) m run_script_parts(4-6,1) p(1-7) l p(8)] show ?thesis
    unfolding t by (metis append_Nil)
qed

end
