(* ===== verification/Replies.thy ===== *)
theory Replies
  imports Session ProcRun
begin

text \<open>
  The two calls with long answers: the list of a diff, printed into one buffer and split again by
  the client, and the run of a command, whose output arrives in frames of its own before the result.
\<close>

section \<open>The text of a diff\<close>

lemma diff_text_loop_fits:
  "length buf + (\<Sum>p\<leftarrow>ps. length p + 1) < cap \<Longrightarrow>
     diff_text_loop ps cap buf = buf @ concat (map (\<lambda>p. p @ [LF]) ps)"
proof (induction ps arbitrary: buf)
  case (Cons p ps)
  have "snprintf (cap - length buf) (p @ [LF]) = p @ [LF]" using Cons.prems by (intro snprintf_fits) simp
  moreover have "length (buf @ p @ [LF]) + (\<Sum>p\<leftarrow>ps. length p + 1) < cap" using Cons.prems by simp
  ultimately show ?case using Cons.IH [of "buf @ p @ [LF]"] by simp
qed simp

lemma length_lines: "length (concat (map (\<lambda>p. p @ [LF]) ps)) = (\<Sum>p\<leftarrow>ps. length p + 1)"
  by (induction ps) simp_all

lemma diff_text_fits:
  assumes "length (dec_of_nat (length ps)) \<le> 62"
  shows "diff_text ps = dec_of_nat (length ps) @ LF # concat (map (\<lambda>p. p @ [LF]) ps)"
proof -
  have "snprintf (diff_bufcap ps) (dec_of_nat (length ps) @ [LF]) = dec_of_nat (length ps) @ [LF]"
    using assms by (intro snprintf_fits) (simp add: diff_bufcap_def)
  moreover have "length (dec_of_nat (length ps) @ [LF]) + (\<Sum>p\<leftarrow>ps. length p + 1) < diff_bufcap ps"
    using assms by (simp add: diff_bufcap_def)
  ultimately show ?thesis by (simp add: diff_text_def diff_text_loop_fits)
qed

lemma take_fields_lines:
  "list_all no_nul ps \<Longrightarrow> list_all no_lf ps \<Longrightarrow> take_fields (length ps) (concat (map (\<lambda>p. p @ [LF]) ps)) = ps"
  by (induction ps) (simp_all add: next_field_lf)

lemma lines_no_nul: "list_all no_nul ps \<Longrightarrow> no_nul (concat (map (\<lambda>p. p @ [LF]) ps))"
  by (induction ps) (simp_all add: no_nul_def)

text \<open>The client's view of a diff: as many lines of the text as the list has paths.\<close>

lemma paths_of_diff:
  assumes "list_all no_nul ps" "length ps < 2 ^ 64"
  shows "paths_of (Some (c_str (ok_payload (diff_text ps)))) = Inr (take_fields (length ps) (concat (map (\<lambda>p. p @ [LF]) ps)))"
    "c_str (ok_payload (diff_text ps)) = ok_payload (dec_of_nat (length ps) @ LF # concat (map (\<lambda>p. p @ [LF]) ps))"
proof -
  have len: "length (dec_of_nat (length ps)) \<le> 20" using length_dec_of_nat [of "length ps" 19] assms(2) by simp
  then have t: "diff_text ps = dec_of_nat (length ps) @ LF # concat (map (\<lambda>p. p @ [LF]) ps)"
    by (intro diff_text_fits) simp
  have nn: "no_nul (ok_payload (diff_text ps))"
    using lines_no_nul [OF assms(1)] no_nul_dec(1) [of "length ps"] by (simp add: t ok_payload_def no_nul_def)
  then show c: "c_str (ok_payload (diff_text ps)) = ok_payload (dec_of_nat (length ps) @ LF # concat (map (\<lambda>p. p @ [LF]) ps))"
    by (simp add: t)
  have "c_strtoul (dec_of_nat (length ps)) = length ps"
    using c_strtoul_dec [of "length ps" "[]"] assms(2) by (simp add: ends_number_def)
  then show "paths_of (Some (c_str (ok_payload (diff_text ps)))) = Inr (take_fields (length ps) (concat (map (\<lambda>p. p @ [LF]) ps)))"
    unfolding c by (simp add: paths_of_def response.read_ok next_field_lf)
qed

lemma diff_exchanged:
  assumes "fst (handle_diff e) = Inr ps" "list_all no_nul ps"
    and "24 + (\<Sum>p\<leftarrow>ps. length p + 1) \<le> n" "n \<le> MAX_FRAME_LEN"
    and "\<forall>n. mem (world_of e) n" "sk_in ss = frame ''DIFF'' @ later" "able 8 (n + 4) ss"
  shows "exchange (n + 4) c e ss ''DIFF'' (snd (handle_diff e)) (agentbox_diff (\<lambda>n. True))
    (Inr (take_fields (length ps) (concat (map (\<lambda>p. p @ [LF]) ps))))"
proof -
  have l: "length ps \<le> (\<Sum>p\<leftarrow>ps. length p + 1)" by (induction ps) simp_all
  then have "length ps < 2 ^ 64" using assms(3,4) by (simp add: MAX_FRAME_LEN_def)
  note d = paths_of_diff [OF assms(2) this]
  have "length (dec_of_nat (length ps)) \<le> 20"
    using length_dec_of_nat [of "length ps" 19] \<open>length ps < 2 ^ 64\<close> by simp
  then have len: "length (c_str (ok_payload (diff_text ps))) \<le> n"
    unfolding d(2) using assms(3) length_lines [of ps] by (simp add: ok_payload_def)
  have r: "diff_reply (handle_diff e) = (c_str (ok_payload (diff_text ps)), snd (handle_diff e))"
    using assms(1) by (simp add: diff_reply_def text_reply_def prod.case_eq_if)
  show ?thesis
    using diff_rpc.exchanged [of e ss later "n + 4" c] assms(4-7) len d(1) unfolding r
    by (simp add: sendable_def)
qed

text \<open>
  C21: The client gets the very list of the diff handler, as long as no path has a newline in it and
  the text, of \<open>n\<close> bytes at most, is not beyond the limit of a frame.
\<close>

theorem diff_call:
  assumes "fst (handle_diff e) = Inr ps" "list_all no_nul ps" "list_all no_lf ps"
    and "24 + (\<Sum>p\<leftarrow>ps. length p + 1) \<le> n" "n \<le> MAX_FRAME_LEN"
    and "\<forall>n. mem (world_of e) n" "sk_in ss = frame ''DIFF'' @ later" "able 8 (n + 4) ss"
  shows "exchange (n + 4) c e ss ''DIFF'' (snd (handle_diff e)) (agentbox_diff (\<lambda>n. True)) (Inr ps)"
  using diff_exchanged [OF assms(1,2,4-8)] by (simp only: take_fields_lines [OF assms(2,3)])

lemma demo_diff_lines:
  "map_sum id id (fst (handle_diff (demo_state, demo_globals, demo1))) = Inr [''M a'', ''D d/f'']"
  by code_simp

lemma diff_call_witness:
  "exchange 104 demo_command (demo_state, demo_globals, demo1) (demo_end (frame ''DIFF'')) ''DIFF''
     (snd (handle_diff (demo_state, demo_globals, demo1))) (agentbox_diff (\<lambda>n. True)) (Inr [''M a'', ''D d/f''])"
proof -
  have d: "fst (handle_diff (demo_state, demo_globals, demo1)) = Inr [''M a'', ''D d/f'']"
    using demo_diff_lines by (simp add: sum.map_id0)
  have inq: "sk_in (demo_end (frame ''DIFF'')) = frame ''DIFF'' @ []" by (simp add: demo_end_def)
  show ?thesis
    using diff_call [OF d _ _ _ _ demo_mem(2) inq demo_end_able, where n = 100 and c = demo_command]
    by (simp add: no_nul_def no_lf_def MAX_FRAME_LEN_def)
qed

text \<open>
  C38: A path with a newline in it does not survive the trip: when the diff handler has found the
  one line \<open>q\<close>, newline, \<open>r\<close>, the client gets \<open>q\<close> alone.
\<close>

theorem diff_newline_splits:
  assumes "fst (handle_diff e) = Inr [q @ LF # r]" "no_nul q" "no_lf q" "no_nul r"
    and "length q + length r \<le> 4096"
    and "\<forall>n. mem (world_of e) n" "sk_in ss = frame ''DIFF'' @ later" "able 8 5004 ss"
  shows "exchange 5004 c e ss ''DIFF'' (snd (handle_diff e)) (agentbox_diff (\<lambda>n. True)) (Inr [q])"
proof -
  have "list_all no_nul [q @ LF # r]" using assms(2,4) by (simp add: no_nul_def)
  from diff_exchanged [OF assms(1) this, of 5000 ss later c] show ?thesis
    using assms(2,3,5-8) by (simp add: next_field_lf MAX_FRAME_LEN_def)
qed

definition demo_newline :: world where
  "demo_newline = demo_world [(''merged'', demo_dir), (''upper_1'', Dir 448 [] [(''b'' @ LF # ''c'', Reg 420 [])]), (''work_1'', demo_dir)]"

lemma diff_newline_splits_witness:
  "exchange 5004 demo_command (demo_state, demo_globals, demo_newline) (demo_end (frame ''DIFF'')) ''DIFF''
     (snd (handle_diff (demo_state, demo_globals, demo_newline))) (agentbox_diff (\<lambda>n. True)) (Inr [''M b''])"
proof -
  have "map_sum id id (fst (handle_diff (demo_state, demo_globals, demo_newline))) = Inr [''M b'' @ LF # ''c'']"
    by code_simp
  then have d: "fst (handle_diff (demo_state, demo_globals, demo_newline)) = Inr [''M b'' @ LF # ''c'']"
    by (simp add: sum.map_id0)
  have m: "\<forall>n. mem (world_of (demo_state, demo_globals, demo_newline)) n"
    by (simp add: world_of_def demo_newline_def demo_world_def)
  have inq: "sk_in (demo_end (frame ''DIFF'')) = frame ''DIFF'' @ []" by (simp add: demo_end_def)
  show ?thesis
    using diff_newline_splits [OF d _ _ _ _ m inq demo_end_able, where c = demo_command]
    by (simp add: no_nul_def no_lf_def)
qed


section \<open>The result of a run\<close>

definition reply_of :: "exec_result \<Rightarrow> reply" where
  "reply_of res = \<lparr>rp_exit_code = exit_code res, rp_timed_out = (if timed_out res then 1 else 0),
     rp_duration_ms = duration_ms res, rp_stdout_path = stdout_path res, rp_stderr_path = stderr_path res\<rparr>"

definition result_ok :: "exec_result \<Rightarrow> bool" where
  "result_ok res \<longleftrightarrow>
     - (2 ^ 31) \<le> exit_code res \<and> exit_code res < 2 ^ 31 \<and> 0 \<le> duration_ms res \<and> duration_ms res < 2 ^ 63
     \<and> no_nul (stdout_path res) \<and> no_lf (stdout_path res) \<and> length (stdout_path res) < AGENTBOX_PATH_LEN
     \<and> no_nul (stderr_path res) \<and> no_lf (stderr_path res) \<and> length (stderr_path res) < AGENTBOX_PATH_LEN"

lemma length_dec_of_int_bound: "\<bar>i\<bar> < 10 ^ Suc k \<Longrightarrow> length (dec_of_int i) \<le> Suc (Suc k)"
proof -
  assume b: "\<bar>i\<bar> < 10 ^ Suc k"
  then have "- i < 10 ^ Suc k" "i < 10 ^ Suc k" by linarith+
  then have "nat (- i) < 10 ^ Suc k" "nat i < 10 ^ Suc k" by (simp_all only: nat_less_numeral_power_cancel_iff)
  from this [THEN length_dec_of_nat] show ?thesis by (simp add: dec_of_int_def)
qed

lemma run_text_fits:
  assumes "result_ok res"
  shows "run_text res = dec_of_int (exit_code res) @ LF # dec_of_int (if timed_out res then 1 else 0) @ LF #
      dec_of_int (duration_ms res) @ LF # stdout_path res @ LF # stderr_path res"
proof -
  have a: "\<bar>exit_code res\<bar> < 10 ^ Suc 9" "\<bar>duration_ms res\<bar> < 10 ^ Suc 18"
    using assms by (auto simp: result_ok_def abs_less_iff)
  have l: "length (dec_of_int (exit_code res)) \<le> 11" "length (dec_of_int (duration_ms res)) \<le> 20"
    using length_dec_of_int_bound [OF a(1)] length_dec_of_int_bound [OF a(2)] by simp_all
  have "length (dec_of_int 1) \<le> 2" "length (dec_of_int 0) \<le> 2"
    using length_dec_of_int_bound [of 1 0] length_dec_of_int_bound [of 0 0] by simp_all
  then have "length (dec_of_int (if timed_out res then 1 else 0)) \<le> 2" by (simp split: if_split)
  then show ?thesis
    using l assms unfolding run_text_def result_ok_def by (intro snprintf_fits) (simp add: AGENTBOX_PATH_LEN_def)
qed

lemma run_text_reads:
  assumes "result_ok res"
  shows "parse_reply (run_text res) = reply_of res" "c_str (ok_payload (run_text res)) = ok_payload (run_text res)"
    "length (ok_payload (run_text res)) \<le> 8400"
proof -
  let ?a = "dec_of_int (exit_code res)" and ?d = "dec_of_int (duration_ms res)"
  let ?t = "dec_of_int (if timed_out res then 1 else 0)"
  have en: "ends_number []" by (simp add: ends_number_def)
  have ex: "c_atoi ?a = exit_code res"
    using c_atoi_dec [OF _ _ en, of "exit_code res"] assms by (simp add: result_ok_def)
  have tm: "c_atoi ?t = (if timed_out res then 1 else 0)"
    using c_atoi_dec [OF _ _ en, of 1] c_atoi_dec [OF _ _ en, of 0] by simp
  have du: "c_atoll ?d = duration_ms res"
    using c_atoll_dec [OF _ _ en, of "duration_ms res"] assms by (simp add: result_ok_def)
  have p: "no_nul (stdout_path res)" "no_lf (stdout_path res)" "no_nul (stderr_path res)" "no_lf (stderr_path res)"
    "length (stdout_path res) < AGENTBOX_PATH_LEN" "length (stderr_path res) < AGENTBOX_PATH_LEN"
    using assms by (simp_all add: result_ok_def)
  show "parse_reply (run_text res) = reply_of res"
    unfolding run_text_fits [OF assms]
    by (simp add: parse_reply_def reply_of_def next_field_lf next_field_last p ex tm du)
  have "no_nul (ok_payload (run_text res))"
    unfolding run_text_fits [OF assms] using p no_nul_dec(2) by (simp add: ok_payload_def no_nul_def)
  then show "c_str (ok_payload (run_text res)) = ok_payload (run_text res)" by (rule c_str_id)
  show "length (ok_payload (run_text res)) \<le> 8400"
    by (simp add: ok_payload_def run_text_def snprintf_def AGENTBOX_PATH_LEN_def)
qed


section \<open>A run\<close>

lemma chunk_fields:
  "next_field (chunk_payload e b) = (''CHUNK'', (if e then CHR ''E'' else CHR ''O'') # LF # b)"
  "next_field ((if e then CHR ''E'' else CHR ''O'') # LF # b) = ([if e then CHR ''E'' else CHR ''O''], b)"
proof -
  show "next_field (chunk_payload e b) = (''CHUNK'', (if e then CHR ''E'' else CHR ''O'') # LF # b)"
    unfolding chunk_payload_def by (rule next_field_lf) (simp_all add: no_nul_def no_lf_def)
  show "next_field ((if e then CHR ''E'' else CHR ''O'') # LF # b) = ([if e then CHR ''E'' else CHR ''O''], b)"
    using next_field_lf [of "[if e then CHR ''E'' else CHR ''O'']" b] by (simp add: no_nul_def no_lf_def)
qed

text \<open>All frames of a run: the chunks, then the response.\<close>

definition run_frames :: "chunks \<Rightarrow> bytes \<Rightarrow> bytes" where
  "run_frames cs final = concat (map (\<lambda>(e, b). frame (chunk_payload e b)) cs) @ frame final"

definition deliver_all :: "(bool \<Rightarrow> bytes \<Rightarrow> 'u \<Rightarrow> 'u) option \<Rightarrow> chunks \<Rightarrow> 'u \<Rightarrow> 'u" where
  "deliver_all cb cs u = (case cb of None \<Rightarrow> u | Some f \<Rightarrow> fold (\<lambda>(e, b). f e b) cs u)"

lemma exec_loop_final:
  assumes "able (length final + 4) w sk" "sk_in sk = frame final @ rest" "sendable final"
    and "next_field final = (v, cursor)" "v \<noteq> ''CHUNK''"
  obtains sk' where "exec_loop (\<lambda>n. True) cb u sk
      = Some (if v = ''OK'' then Inr (parse_reply cursor) else Inl (c_atoi (fst (next_field cursor))), u, sk')"
    "sk_in sk' = rest" "sk_out sk' = sk_out sk"
proof -
  obtain sk' where r: "sk_in sk' = rest" "sk_out sk' = sk_out sk" and "recv_frame (\<lambda>n. True) sk = Some (Some final, sk')"
    by (rule recv_frame_able [OF assms(1) le_refl assms(2,3), where alloc = "\<lambda>n. True"]) simp_all
  then have "exec_loop (\<lambda>n. True) cb u sk
      = Some (if v = ''OK'' then Inr (parse_reply cursor) else Inl (c_atoi (fst (next_field cursor))), u, sk')"
    using assms(4,5) by (simp add: exec_loop.simps [of "\<lambda>n. True" cb u sk])
  then show thesis using r by (rule that)
qed

lemma exec_loop_chunks:
  "\<forall>c \<in> set cs. length (snd c) \<le> 8192 \<Longrightarrow> sk_in sk = run_frames cs final @ rest \<Longrightarrow>
     able (length (run_frames cs final)) w sk \<Longrightarrow> sendable final \<Longrightarrow> next_field final = (v, cursor) \<Longrightarrow> v \<noteq> ''CHUNK'' \<Longrightarrow>
   \<exists>sk'. exec_loop (\<lambda>n. True) cb u sk
      = Some (if v = ''OK'' then Inr (parse_reply cursor) else Inl (c_atoi (fst (next_field cursor))), deliver_all cb cs u, sk')
     \<and> sk_in sk' = rest \<and> sk_out sk' = sk_out sk"
proof (induction cs arbitrary: u sk)
  case Nil
  have "able (length final + 4) w sk" using Nil.prems(3) by (simp add: run_frames_def frame_def able_def)
  moreover have "sk_in sk = frame final @ rest" using Nil.prems(2) by (simp add: run_frames_def)
  ultimately obtain sk' where "exec_loop (\<lambda>n. True) cb u sk
      = Some (if v = ''OK'' then Inr (parse_reply cursor) else Inl (c_atoi (fst (next_field cursor))), u, sk')"
    "sk_in sk' = rest" "sk_out sk' = sk_out sk"
    by (rule exec_loop_final [OF _ _ Nil.prems(4-6)])
  moreover have "deliver_all cb [] u = u" by (simp add: deliver_all_def split: option.split)
  ultimately show ?case by (intro exI [of _ sk']) simp
next
  case (Cons x cs)
  obtain e b where x: "x = (e, b)" by fastforce
  let ?p = "chunk_payload e b"
  have sp: "sendable ?p" using Cons.prems(1) by (simp add: x chunk_payload_def sendable_def MAX_FRAME_LEN_def)
  have inq: "sk_in sk = frame ?p @ run_frames cs final @ rest" using Cons.prems(2) by (simp add: x run_frames_def)
  have "length ?p + 4 \<le> length (run_frames (x # cs) final)" by (simp add: x run_frames_def frame_def)
  then obtain sk1 where
    r: "recv_frame (\<lambda>n. True) sk = Some (Some ?p, sk1)" "sk_in sk1 = run_frames cs final @ rest" "sk_out sk1 = sk_out sk"
    "able (length (run_frames (x # cs) final) - (length ?p + 4)) w sk1"
    by (rule recv_frame_able [OF Cons.prems(3) _ inq sp, where alloc = "\<lambda>n. True"]) simp_all
  have "length (run_frames (x # cs) final) - (length ?p + 4) = length (run_frames cs final)"
    by (simp add: x run_frames_def frame_def)
  then have a: "able (length (run_frames cs final)) w sk1" using r(4) by simp
  let ?u = "case cb of None \<Rightarrow> u | Some f \<Rightarrow> f e b u"
  have "exec_loop (\<lambda>n. True) cb u sk = exec_loop (\<lambda>n. True) cb ?u sk1"
    unfolding exec_loop.simps [of "\<lambda>n. True" cb u sk]
    using r(1) chunk_fields [of e b] by (cases e; cases cb) simp_all
  moreover have "deliver_all cb (x # cs) u = deliver_all cb cs ?u" by (simp add: deliver_all_def x split: option.split)
  ultimately show ?case using Cons.IH [OF _ r(2) a Cons.prems(4-6), of ?u] Cons.prems(1) r(3) by simp
qed

text \<open>What is known of the result of a run that went through.\<close>

lemma exit_code_range: "-1 \<le> exit_code_of to st \<and> exit_code_of to st \<le> 255"
proof -
  have "WEXITSTATUS st \<le> 255" "0 \<le> WEXITSTATUS st" unfolding WEXITSTATUS_div by auto
  moreover have "0 \<le> WTERMSIG st" "WTERMSIG st \<le> 127" unfolding WTERMSIG_mod by auto
  ultimately show ?thesis by (simp add: exit_code_of_def)
qed

lemma proc_run_result:
  assumes "agentbox_proc_run env t out err cb (u, w) = Some (Inr res, u', w')"
  shows "-1 \<le> exit_code res \<and> exit_code res \<le> 255 \<and> duration_ms res = re_end env - re_start env
    \<and> stdout_path res = snprintf AGENTBOX_PATH_LEN out \<and> stderr_path res = snprintf AGENTBOX_PATH_LEN err"
  using assms exit_code_range
  by (auto simp: agentbox_proc_run_def Let_def split: prod.splits sum.splits if_splits option.splits)

lemma run_file_text:
  assumes "no_nul (runtime_dir st)" "no_lf (runtime_dir st)" "no_nul s" "no_lf s"
  shows "no_nul (run_file st s)" "no_lf (run_file st s)" "length (run_file st s) < AGENTBOX_PATH_LEN"
proof -
  have "no_nul (runtime_dir st @ ''/run_'' @ dec_of_int (run_counter st) @ s)"
    "no_lf (runtime_dir st @ ''/run_'' @ dec_of_int (run_counter st) @ s)"
    using assms no_nul_dec(2) no_lf_dec(2) by (auto simp: no_nul_def no_lf_def)
  then show "no_nul (run_file st s)" "no_lf (run_file st s)" by (auto simp: run_file_def)
  show "length (run_file st s) < AGENTBOX_PATH_LEN"
    unfolding run_file_def by (rule snprintf_length) (simp add: AGENTBOX_PATH_LEN_def)
qed

definition run_request :: "int \<Rightarrow> string \<Rightarrow> bytes" where
  "run_request t cmd = ''RUN'' @ LF # dec_of_int t @ LF # cmd"

lemma run_request_fields:
  "next_field (run_request t cmd) = (''RUN'', dec_of_int t @ LF # cmd)"
  "next_field (dec_of_int t @ LF # cmd) = (dec_of_int t, cmd)"
proof -
  show "next_field (run_request t cmd) = (''RUN'', dec_of_int t @ LF # cmd)"
    unfolding run_request_def by (rule next_field_lf) (simp_all add: no_nul_def no_lf_def)
  show "next_field (dec_of_int t @ LF # cmd) = (dec_of_int t, cmd)" by (rule next_field_lf) simp_all
qed

lemma serve_run_request:
  assumes "no_nul cmd" "- (2 ^ 31) \<le> t" "t < 2 ^ 31"
  shows "serve_request c (run_request t cmd) (st, gl, w) ss =
    (case agentbox_proc_run (cm_env c (merged_dir st) cmd) t (run_file st ''_stdout.txt'') (run_file st ''_stderr.txt'')
        (Some send_chunk_to_client) (ss, w) of
       None \<Rightarrow> None
     | Some (r, sk1, w1) \<Rightarrow>
         map_option (\<lambda>sk2. ((st\<lparr>run_counter := run_counter st + 1\<rparr>, gl, cm_effect c (merged_dir st) cmd w1), sk2, False))
           (case r of Inr res \<Rightarrow> send_ok sk1 (run_text res) | Inl rc \<Rightarrow> send_err sk1 rc ''run failed''))"
proof -
  have "c_atoi (dec_of_int t) = t" using c_atoi_dec [of t "[]"] assms(2,3) by (simp add: ends_number_def)
  then show ?thesis
    using assms(1) by (simp add: serve_request_def run_request_fields serve_run_def Let_def cong: option.case_cong)
qed

text \<open>The client's call, when the frames of the run are next in its socket.\<close>

lemma exec_streaming_answered:
  assumes "no_nul cmd" "\<forall>c \<in> set cs. length (snd c) \<le> 8192" "result_ok res"
    and "sk_in sk = run_frames cs (ok_payload (run_text res)) @ rest"
    and "able (length (run_frames cs (ok_payload (run_text res)))) (length (run_request t cmd) + 4) sk"
    and "- (2 ^ 31) \<le> t" "t < 2 ^ 31"
  obtains sk' where "agentbox_exec_streaming (\<lambda>n. True) cmd t cb u sk = Some (Inr (reply_of res), deliver_all cb cs u, sk')"
    "sk_out sk' = sk_out sk @ frame (run_request t cmd)" "sk_in sk' = rest"
proof -
  let ?f = "ok_payload (run_text res)"
  have "\<bar>t\<bar> < 10 ^ Suc 9" using assms(6,7) by auto
  from length_dec_of_int_bound [OF this] have "snprintf (length cmd + 64) (run_request t cmd) = run_request t cmd"
    by (intro snprintf_fits) (simp add: run_request_def)
  moreover have "no_nul (run_request t cmd)" using assms(1) no_nul_dec(2) [of t] by (simp add: run_request_def no_nul_def)
  ultimately have q: "c_str (snprintf (length cmd + 64) (''RUN'' @ LF # dec_of_int t @ LF # cmd)) = run_request t cmd"
    by (simp add: run_request_def)
  obtain sk1 where s: "send_frame sk (run_request t cmd) = Some (0, sk1)" "sk_out sk1 = sk_out sk @ frame (run_request t cmd)"
    "sk_in sk1 = sk_in sk" "able (length (run_frames cs ?f)) 0 sk1"
    by (rule send_frame_able [OF assms(5) le_refl]) simp
  have fin: "sendable ?f" using run_text_reads(3) [OF assms(3)] by (simp add: sendable_def MAX_FRAME_LEN_def)
  have nf: "next_field ?f = (''OK'', run_text res)"
    unfolding ok_payload_def by (rule next_field_lf) (simp_all add: no_nul_def no_lf_def)
  from exec_loop_chunks [OF assms(2) _ s(4) fin nf, of rest cb u] s(3) assms(4)
  obtain sk2 where "exec_loop (\<lambda>n. True) cb u sk1 = Some (Inr (parse_reply (run_text res)), deliver_all cb cs u, sk2)"
    "sk_in sk2 = rest" "sk_out sk2 = sk_out sk1" by auto
  moreover from this s(1) run_text_reads(1) [OF assms(3)]
  have "agentbox_exec_streaming (\<lambda>n. True) cmd t cb u sk = Some (Inr (reply_of res), deliver_all cb cs u, sk2)"
    unfolding agentbox_exec_streaming_def Let_def send_frame_str_def q by simp
  ultimately show thesis using s(2) by (intro that [of sk2]) simp_all
qed

lemma proc_run_succeeds:
  assumes "capture_ready w out err r n k" "re_pipe_out env" "re_pipe_err env" "re_fork env"
    and "agentbox_proc_run env t out err cb (u, w) = Some (x, u', w')"
  obtains res where "x = Inr res"
proof -
  obtain w1 w2 where "sys_open_write out 420 w = (Inr (r @ [n]), w1)" "sys_open_write err 420 w1 = (Inr (r @ [k]), w2)"
    by (rule capture_opens [OF assms(1)])
  with assms(2-5) have "\<exists>res. x = Inr res"
    by (auto simp: agentbox_proc_run_def Let_def split: option.splits prod.splits)
  with that show thesis by blast
qed

text \<open>
  The environment of a run in which nothing fails or blocks on the supervisor's side, and in which
  the command ends or runs into its deadline. The client's socket takes the chunks and the result.
\<close>

definition run_live :: "run_env \<Rightarrow> int \<Rightarrow> sock \<Rightarrow> bool" where
  "run_live env t sk \<longleftrightarrow> re_pipe_out env \<and> re_pipe_err env \<and> re_fork env \<and> steady (re_out_sc env) \<and> steady (re_err_sc env)
     \<and> re_start env \<le> re_end env \<and> re_end env - re_start env < 2 ^ 63
     \<and> (\<exists>lp \<in> set (re_passes env). ends_loop (re_start env + t * 1000) lp)
     \<and> (let reads = 2 * length (re_passes env) + 10 in
          reads * 8192 \<le> moves (re_out_sc env) \<and> reads * 8192 \<le> moves (re_err_sc env) \<and> reads * 8204 \<le> send_room sk)"


text \<open>The command of the example prints two bytes and exits with 0; the runtime directory is \<^verbatim>\<open>/rt\<close>.\<close>

definition hi_command :: command where
  "hi_command = \<lparr>cm_env = (\<lambda>cwd cmd. run_script ''hi''), cm_effect = (\<lambda>cwd cmd w. w)\<rparr>"

lemma demo_capture_ready:
  "capture_ready demo1 (run_file demo_state ''_stdout.txt'') (run_file demo_state ''_stderr.txt'') [''rt''] ''run_0_stdout.txt'' ''run_0_stderr.txt''"
proof -
  have "comps (run_file demo_state ''_stdout.txt'') = [''rt'', ''run_0_stdout.txt'']"
    "comps (run_file demo_state ''_stderr.txt'') = [''rt'', ''run_0_stderr.txt'']" by code_simp+
  then show ?thesis by (simp add: capture_ready_def names_def dir_at_def wf_name_def demo_defs quiet_def)
qed


end
