(* ===== verification/Channel.thy ===== *)
theory Channel
  imports Session
begin

text \<open>
  The framed channel as the code runs it: any number of frames through partial reads and writes,
  what a receiver makes of a broken stream, and the frame that is too long.
\<close>

section \<open>Many frames\<close>

text \<open>Sending one payload after the other until one fails, and receiving so many.\<close>

primrec send_frames :: "bytes list \<Rightarrow> sock \<Rightarrow> (int \<times> sock) option" where
  "send_frames [] sk = Some (0, sk)"
| "send_frames (p # ps) sk = (case send_frame sk p of
     None \<Rightarrow> None
   | Some (rc, sk1) \<Rightarrow> if rc \<noteq> 0 then Some (rc, sk1) else send_frames ps sk1)"

primrec recv_frames :: "(nat \<Rightarrow> bool) \<Rightarrow> nat \<Rightarrow> sock \<Rightarrow> (bytes list option \<times> sock) option" where
  "recv_frames alloc 0 sk = Some (Some [], sk)"
| "recv_frames alloc (Suc k) sk = (case recv_frame alloc sk of
     None \<Rightarrow> None
   | Some (None, sk1) \<Rightarrow> Some (None, sk1)
   | Some (Some p, sk1) \<Rightarrow> map_option (\<lambda>(ps, sk2). (map_option ((#) p) ps, sk2)) (recv_frames alloc k sk1))"

definition stream_bytes :: "bytes list \<Rightarrow> nat" where
  "stream_bytes ps = (\<Sum>p\<leftarrow>ps. length p + 4)"

lemma send_frames_able:
  "able r (stream_bytes ps) sk \<Longrightarrow>
     \<exists>sk'. send_frames ps sk = Some (0, sk') \<and> sk_out sk' = sk_out sk @ concat (map frame ps)"
proof (induction ps arbitrary: sk)
  case (Cons p ps)
  have "length p + 4 \<le> stream_bytes (p # ps)" by (simp add: stream_bytes_def)
  from send_frame_able [OF Cons.prems this] obtain sk1 where
    s: "send_frame sk p = Some (0, sk1)" "sk_out sk1 = sk_out sk @ frame p"
    "able r (stream_bytes (p # ps) - (length p + 4)) sk1" by blast
  then have "able r (stream_bytes ps) sk1" by (simp add: stream_bytes_def)
  from Cons.IH [OF this] s show ?case by auto
qed simp

lemma recv_frames_able:
  "able (stream_bytes ps) n sk \<Longrightarrow> \<forall>n. alloc n \<Longrightarrow> list_all sendable ps \<Longrightarrow> sk_in sk = concat (map frame ps) @ rest \<Longrightarrow>
     \<exists>sk'. recv_frames alloc (length ps) sk = Some (Some ps, sk') \<and> sk_in sk' = rest"
proof (induction ps arbitrary: sk)
  case (Cons p ps)
  have l: "length p + 4 \<le> stream_bytes (p # ps)" by (simp add: stream_bytes_def)
  have "sk_in sk = frame p @ concat (map frame ps) @ rest" "sendable p" using Cons.prems(3,4) by simp_all
  from recv_frame_able [OF Cons.prems(1) l this Cons.prems(2)] obtain sk1 where
    s: "recv_frame alloc sk = Some (Some p, sk1)" "sk_in sk1 = concat (map frame ps) @ rest"
    "able (stream_bytes (p # ps) - (length p + 4)) n sk1" by blast
  then have "able (stream_bytes ps) n sk1" by (simp add: stream_bytes_def)
  from Cons.IH [OF this Cons.prems(2) _ s(2)] Cons.prems(3) s(1) show ?case by auto
qed simp

text \<open>
  C16: Any number of frames of at most 16 MiB, sent one after the other and received one after the
  other, arrive whole and in order, however the kernels on both sides split the writes and the reads
  and however often they are interrupted.
\<close>

theorem frames_arrive:
  assumes "list_all sendable ps" "able r (stream_bytes ps) a" "able (stream_bytes ps) n b" "\<forall>n. alloc n"
    and "sk_in b = concat (map frame ps) @ rest"
  shows "\<exists>a' b'. send_frames ps a = Some (0, a') \<and> sk_out a' = sk_out a @ concat (map frame ps)
    \<and> recv_frames alloc (length ps) b = Some (Some ps, b') \<and> sk_in b' = rest"
  using send_frames_able [OF assms(2)] recv_frames_able [OF assms(3,4,1,5)] by blast

lemma frames_arrive_witness:
  "\<exists>a b. send_frames [''hi'', [], ''there''] (demo_end []) = Some (0, a)
     \<and> recv_frames (\<lambda>n. True) 3 (demo_end (sk_out a)) = Some (Some [''hi'', [], ''there''], b) \<and> sk_in b = []"
proof -
  let ?ps = "[''hi'', [], ''there'']"
  have a: "list_all sendable ?ps" "able 0 (stream_bytes ?ps) (demo_end [])" "able (stream_bytes ?ps) 0 (demo_end inq)" for inq
    by (simp add: sendable_def MAX_FRAME_LEN_def, intro demo_end_able, simp_all add: stream_bytes_def, intro demo_end_able, simp_all)
  have i: "sk_in (demo_end (concat (map frame ?ps))) = concat (map frame ?ps) @ []" "sk_out (demo_end []) = []" "length ?ps = 3"
    by (simp_all add: demo_end_def)
  from frames_arrive [OF a(1,2,3) _ i(1), of "\<lambda>n. True"] show ?thesis unfolding i(2,3) by auto
qed


section \<open>Broken streams\<close>

lemma base256_bytes:
  fixes a b c d :: nat
  assumes "b < 256" "c < 256" "d < 256"
  defines "n \<equiv> ((a * 256 + b) * 256 + c) * 256 + d"
  shows "n div 256 = (a * 256 + b) * 256 + c" "n div 65536 = a * 256 + b" "n div 16777216 = a"
proof -
  show d1: "n div 256 = (a * 256 + b) * 256 + c" using assms(3) by (simp add: n_def)
  have "n div (256 * 256) = n div 256 div 256" by (rule div_mult2_eq)
  then show d2: "n div 65536 = a * 256 + b" using assms(2) unfolding d1 by simp
  have "n div (65536 * 256) = n div 65536 div 256" by (rule div_mult2_eq)
  then show "n div 16777216 = a" using assms(1) unfolding d2 by simp
qed

lemma base256_bound:
  "a < 256 \<Longrightarrow> b < 256 \<Longrightarrow> c < 256 \<Longrightarrow> d < (256 :: nat) \<Longrightarrow> ((a * 256 + b) * 256 + c) * 256 + d < 2 ^ 32"
  by simp

lemma htonl_ntohl:
  assumes "length h = 4"
  shows "htonl_bytes (ntohl_bytes h) = h"
proof -
  obtain a b c d where h: "h = [a, b, c, d]" using assms by (auto simp: eval_nat_numeral length_Suc_conv)
  let ?n = "((of_char a * 256 + of_char b) * 256 + of_char c) * 256 + of_char d :: nat"
  have lt: "of_char x < (256 :: nat)" for x by (rule nat_of_char_less_256)
  have "?n < 2 ^ 32" by (rule base256_bound) (rule lt)+
  from length_as_u32 [OF this] have u: "unat (ntohl_bytes [a, b, c, d]) = ?n"
    unfolding ntohl_bytes_def foldl.simps by (simp only: mult_0 add_0)
  have q: "char_of (k * 256 + of_char x) = x" "char_of (of_char x :: nat) = x" for k :: nat and x :: char
    by (rule of_char_eqI [where 'a = nat], simp)+
  have p: "(256 :: nat) ^ 3 = 16777216" "(256 :: nat) ^ 2 = 65536" "(256 :: nat) ^ 1 = 256" "(256 :: nat) ^ 0 = 1" by simp_all
  show ?thesis
    unfolding htonl_bytes_def h u list.map p base256_bytes [OF lt lt lt] div_by_1 q ..
qed

lemma recv_all_result:
  "recv_all sk k = Some (rc, got, sk') \<Longrightarrow>
     sk_in sk = got @ sk_in sk' \<and> length got \<le> k \<and> (rc = 0 \<longleftrightarrow> length got = k)"
  using recv_loop_result [of "sk_rd sk" k "[]" "sk_in sk"] by (fastforce simp: recv_all_def split: option.splits)

lemma recv_frame_whole:
  assumes "recv_frame alloc sk = Some (Some p, sk')"
  shows "sk_in sk = frame p @ sk_in sk' \<and> sendable p"
proof -
  obtain h sk1 where h: "recv_all sk 4 = Some (0, h, sk1)" "length h = 4"
    using assms recv_all_result [of sk 4] by (fastforce simp: recv_frame_def Let_def split: option.splits if_splits)
  let ?n = "unat (ntohl_bytes h)"
  have p: "length p = ?n" "sk_in sk1 = p @ sk_in sk'" "?n \<le> MAX_FRAME_LEN"
    using assms h recv_all_result [of sk1 ?n] by (auto simp: recv_frame_def Let_def split: option.splits if_splits)
  have "htonl_bytes (word_of_nat (length p)) = h" using htonl_ntohl [OF h(2)] p(1) by simp
  then show ?thesis using recv_all_result [OF h(1)] p by (simp add: frame_def sendable_def)
qed

lemma send_all_prefix:
  "send_all sk b = Some (rc, sk') \<Longrightarrow> \<exists>q. sk_out sk' = sk_out sk @ q \<and> prefix q b \<and> (rc = 0 \<longleftrightarrow> q = b)"
  using send_loop_prefix [of "sk_wr sk" b "[]"] by (fastforce simp: send_all_def split: option.splits)

lemma send_frame_prefix:
  assumes "send_frame sk p = Some (rc, sk')"
  shows "\<exists>q. sk_out sk' = sk_out sk @ q \<and> prefix q (frame p) \<and> (rc = 0 \<longleftrightarrow> q = frame p)"
proof -
  let ?h = "htonl_bytes (word_of_nat (length p))"
  obtain rc1 sk1 where h: "send_all sk ?h = Some (rc1, sk1)"
    using assms by (cases "send_all sk ?h") (auto simp: send_frame_def)
  obtain q where q: "sk_out sk1 = sk_out sk @ q" "prefix q ?h" "rc1 = 0 \<longleftrightarrow> q = ?h" using send_all_prefix [OF h] by blast
  show ?thesis
  proof (cases "rc1 = 0 \<and> p \<noteq> []")
    case True
    then obtain rc2 where r: "send_all sk1 p = Some (rc2, sk')" "rc = (if rc2 \<noteq> 0 then -1 else 0)"
      using assms h by (auto simp: send_frame_def split: option.splits)
    from send_all_prefix [OF r(1)] obtain q2 where "sk_out sk' = sk_out sk1 @ q2" "prefix q2 p" "rc2 = 0 \<longleftrightarrow> q2 = p" by blast
    then show ?thesis using True q r(2) by (intro exI [of _ "?h @ q2"]) (simp add: frame_def)
  next
    case False
    then have "rc = (if rc1 = 0 then 0 else -1) \<and> sk' = sk1" using assms h by (auto simp: send_frame_def split: if_splits)
    moreover have "prefix q (frame p)" using q(2) by (auto simp: frame_def prefix_def)
    moreover have "q \<noteq> frame p" if "rc1 \<noteq> 0"
    proof
      assume f: "q = frame p"
      have "length q \<le> length ?h" using q(2) by (rule prefix_length_le)
      then have "q = ?h" using f q(2) by (simp add: frame_def)
      then show False using q(3) that by simp
    qed
    ultimately show ?thesis using False q by (intro exI [of _ q]) (auto simp: frame_def)
  qed
qed

text \<open>
  C17: A receiver never hands out part of a frame: whatever errors, interrupts and short reads it
  meets, what it returns is the payload of a whole frame of at most 16 MiB at the front of its
  stream, and exactly that frame is consumed. And a sender that reports success has written the
  whole frame, one that does not a part of it.
\<close>

theorem frames_whole_or_not:
  shows "(recv_frame alloc a = Some (Some p, a') \<longrightarrow> sk_in a = frame p @ sk_in a' \<and> sendable p)
    \<and> (send_frame b q = Some (rc, b') \<longrightarrow>
        (\<exists>s. sk_out b' = sk_out b @ s \<and> prefix s (frame q) \<and> (rc = 0 \<longleftrightarrow> s = frame q)))"
  using recv_frame_whole send_frame_prefix by blast

lemma frames_whole_or_not_witness:
  "(\<exists>a. recv_frame (\<lambda>n. True) (demo_end (frame ''hi'')) = Some (Some ''hi'', a) \<and> frame ''hi'' = frame ''hi'' @ sk_in a)
   \<and> (\<exists>b. send_frame (demo_end []) ''hi'' = Some (0, b) \<and> sk_out b = frame ''hi'')"
proof -
  have able: "able 6 6 (demo_end inq)" for inq by (intro demo_end_able) simp_all
  obtain a where a: "recv_frame (\<lambda>n. True) (demo_end (frame ''hi'')) = Some (Some ''hi'', a)"
    by (rule recv_frame_able [OF able, of "''hi''" "frame ''hi''" "[]" "\<lambda>n. True"])
      (simp_all add: demo_end_def sendable_def MAX_FRAME_LEN_def)
  obtain b where b: "send_frame (demo_end []) ''hi'' = Some (0, b)"
    by (rule send_frame_able [OF able, of "''hi''" "[]"]) simp_all
  from frames_whole_or_not [of "\<lambda>n. True" "demo_end (frame ''hi'')" "''hi''" a "demo_end []" "''hi''" 0 b] show ?thesis
    using a b by (simp add: demo_end_def)
qed

text \<open>
  C37: The sender does not know the limit: a frame of more than 16 MiB is sent as a success and refused
  by the receiver, who leaves the payload in the stream. A supervisor that gets one takes it for
  the end of the client and stops.
\<close>

theorem oversize_frame_ends_session:
  assumes "MAX_FRAME_LEN < length p" "length p < 2 ^ 32"
    and "able r (length p + 4) a" "able 4 n b" "sk_in b = frame p @ rest"
  shows "\<exists>a' b'. send_frame a p = Some (0, a') \<and> sk_out a' = sk_out a @ frame p
    \<and> recv_frame alloc b = Some (None, b') \<and> sk_in b' = p @ rest \<and> serve_loop cmds e b = Some (e, b')"
proof -
  obtain a' where s: "send_frame a p = Some (0, a')" "sk_out a' = sk_out a @ frame p"
    by (rule send_frame_able [OF assms(3) le_refl])
  have np: "\<not> sendable p" and rd: "steady (sk_rd b)" "4 \<le> moves (sk_rd b)"
    using assms(1,4) by (simp_all add: sendable_def able_def)
  obtain b1 where r: "recv_all b 4 = Some (0, htonl_bytes (word_of_nat (length p)), b1)" "sk_in b1 = p @ rest"
    by (rule recv_all_succeeds [OF rd(1) _ rd(2)]) (simp_all add: assms(5) frame_def)
  then have "recv_frame m b = Some (None, b1)" for m
    using np length_as_u32 [OF assms(2)] by (simp add: recv_frame_def ntohl_htonl sendable_def)
  then show ?thesis using s r(2) by (intro exI [of _ a'] exI [of _ b1]) (simp add: serve_loop.simps [of cmds])
qed

lemma oversize_frame_ends_session_witness:
  "\<exists>a b. send_frame \<lparr>sk_in = [], sk_out = [], sk_rd = [], sk_wr = replicate 16777221 (Ret 1)\<rparr> (replicate 16777217 CHR ''x'') = Some (0, a)
     \<and> serve_loop [demo_command] (demo_state, demo_globals, demo1) (demo_end (frame (replicate 16777217 CHR ''x'')))
         = Some ((demo_state, demo_globals, demo1), b)"
proof -
  let ?p = "replicate 16777217 CHR ''x''" and ?a = "\<lparr>sk_in = [], sk_out = [], sk_rd = [], sk_wr = replicate 16777221 (Ret 1)\<rparr>"
  have l: "length ?p = 16777217" by (rule length_replicate)
  have "MAX_FRAME_LEN < length ?p" "length ?p < 2 ^ 32" unfolding l by (simp_all add: MAX_FRAME_LEN_def)
  moreover have "able 0 (length ?p + 4) ?a"
    unfolding l able_def sock.simps moves_replicate using steady_replicate by simp
  moreover have "able 4 0 (demo_end (frame ?p))" by (intro demo_end_able) simp_all
  moreover have "sk_in (demo_end (frame ?p)) = frame ?p @ []" unfolding demo_end_def sock.simps append_Nil2 ..
  ultimately show ?thesis using oversize_frame_ends_session by blast
qed

end
