(* ===== verification/Namespace.thy ===== *)
theory Namespace
  imports Cow
begin

text \<open>
  \<^verbatim>\<open>src/c/agentbox_ns.c\<close> and the probe mode of \<^verbatim>\<open>src/c/agentbox_exec_main.c\<close>: entering the user, mount
  and pid namespaces, the capability probe that tries the same sequence in a child first, and the
  installation of the AppArmor profile. What the kernel answers to the calls of the sequence is a
  parameter, the same for probe and entry.
\<close>

section \<open>The kernel's answers\<close>

text \<open>
  \<open>k_proc_open\<close> and \<open>k_proc_write\<close> answer the opening and the writing of a file of
  \<^verbatim>\<open>/proc/self\<close>; \<open>k_system\<close> is what a shell command returns and does; \<open>k_strerror\<close> is the library's
  table of messages.
\<close>

record ns_kernel =
  k_uid :: "32 word"
  k_gid :: "32 word"
  k_pid :: int
  k_unshare :: "errno option"
  k_proc_open :: "string \<Rightarrow> errno option"
  k_proc_write :: "string \<Rightarrow> string \<Rightarrow> errno option"
  k_private :: "errno option"
  k_system :: "string \<Rightarrow> world \<Rightarrow> int \<times> world"
  k_strerror :: "errno \<Rightarrow> string"

definition write_proc_self :: "ns_kernel \<Rightarrow> string \<Rightarrow> string \<Rightarrow> errno option" where
  "write_proc_self k leaf data =
     (let path = snprintf 64 (''/proc/self/'' @ leaf) in
      (case k_proc_open k path of Some e \<Rightarrow> Some e | None \<Rightarrow> k_proc_write k path data))"

text \<open>The ids are printed with \<^verbatim>\<open>%d\<close>, as signed numbers.\<close>

definition id_map_line :: "32 word \<Rightarrow> string" where
  "id_map_line i = snprintf 64 (''0 '' @ dec_of_int (sint i) @ '' 1'')"

definition agentbox_ns_enter :: "ns_kernel \<Rightarrow> errcode" where
  "agentbox_ns_enter k =
     (if k_unshare k \<noteq> None then AGENTBOX_ERR_NAMESPACE_UNAVAILABLE
      else if write_proc_self k ''setgroups'' ''deny'' \<noteq> None then AGENTBOX_ERR_NAMESPACE_UNAVAILABLE
      else if write_proc_self k ''uid_map'' (id_map_line (k_uid k)) \<noteq> None then AGENTBOX_ERR_NAMESPACE_UNAVAILABLE
      else if write_proc_self k ''gid_map'' (id_map_line (k_gid k)) \<noteq> None then AGENTBOX_ERR_NAMESPACE_UNAVAILABLE
      else if k_private k \<noteq> None then AGENTBOX_ERR_MOUNT_FAILED
      else AGENTBOX_OK)"


section \<open>The probe\<close>

definition ns_mkdir_p :: "string \<Rightarrow> world \<Rightarrow> world" where
  "ns_mkdir_p path w = mkdir_p path 493 w"

definition rm_rf :: "ns_kernel \<Rightarrow> string \<Rightarrow> world \<Rightarrow> world" where
  "rm_rf k path w =
     snd (k_system k (snprintf (PATH_MAX + 16) (''rm -rf '' @ CHR 0x27 # path @ [CHR 0x27])) w)"

text \<open>The body of the child: the result, the message in a buffer of \<open>len\<close> bytes, and the world.\<close>

definition probe_child_body :: "ns_kernel \<Rightarrow> string \<Rightarrow> nat \<Rightarrow> world \<Rightarrow> probe_result \<times> string \<times> world" where
  "probe_child_body k scratch len w = (case k_unshare k of
     Some e \<Rightarrow> (AGENTBOX_PROBE_UNSHARE_FAILED, snprintf len (''unshare failed: '' @ k_strerror k e), w)
   | None \<Rightarrow> (case write_proc_self k ''setgroups'' ''deny'' of
     Some e \<Rightarrow> (AGENTBOX_PROBE_ID_MAP_DENIED, snprintf len (''setgroups=deny failed: '' @ k_strerror k e), w)
   | None \<Rightarrow> (case write_proc_self k ''uid_map'' (id_map_line (k_uid k)) of
     Some e \<Rightarrow> (AGENTBOX_PROBE_ID_MAP_DENIED, snprintf len (''uid_map write failed: '' @ k_strerror k e @
        '' (this is the AppArmor-blocked case; run: agentbox setup)''), w)
   | None \<Rightarrow> (case write_proc_self k ''gid_map'' (id_map_line (k_gid k)) of
     Some e \<Rightarrow> (AGENTBOX_PROBE_ID_MAP_DENIED, snprintf len (''gid_map write failed: '' @ k_strerror k e), w)
   | None \<Rightarrow> (case k_private k of
     Some e \<Rightarrow> (AGENTBOX_PROBE_MOUNT_OTHER_FAILED, snprintf len (''MS_PRIVATE remount failed: '' @ k_strerror k e), w)
   | None \<Rightarrow>
       (let lower = snprintf PATH_MAX (scratch @ ''/lower'');
            upper = snprintf PATH_MAX (scratch @ ''/upper'');
            work = snprintf PATH_MAX (scratch @ ''/work'');
            merged = snprintf PATH_MAX (scratch @ ''/merged'');
            w1 = ns_mkdir_p merged (ns_mkdir_p work (ns_mkdir_p upper (ns_mkdir_p lower w)));
            opts = snprintf (PATH_MAX * 3) (mount_opts lower upper work)
        in (case sys_mount opts merged w1 of
              (None, w2) \<Rightarrow> (AGENTBOX_PROBE_OK, snprintf len ''ok'', snd (sys_umount2 merged w2))
            | (Some e, w2) \<Rightarrow>
                if e = EPERM \<or> e = EINVAL
                then (let (frc, w3) = k_system k (snprintf (PATH_MAX * 4) (''fuse-overlayfs -o '' @ opts @ '' '' @ merged)) w2
                      in if frc \<noteq> 0
                         then (AGENTBOX_PROBE_MOUNT_PERM_DENIED, snprintf len (''native mount failed ('' @ k_strerror k e @
                                '') and fuse-overlayfs fallback also failed (rc='' @ dec_of_int frc @ '')''), w3)
                         else (AGENTBOX_PROBE_OK, snprintf len ''ok'', snd (sys_umount2 merged w3)))
                else (AGENTBOX_PROBE_MOUNT_OTHER_FAILED,
                      snprintf len (''mount failed with unrelated errno: '' @ k_strerror k e), w2))))))))"

text \<open>
  \<^verbatim>\<open>agentbox_ns_probe\<close>. The child hands its message through a pipe and its result as its exit
  status, unless a signal ends it first (\<open>killed\<close>); its mounts vanish with its namespace. Without a
  buffer there is no message.
\<close>

definition agentbox_ns_probe ::
  "ns_kernel \<Rightarrow> errno option \<Rightarrow> errno option \<Rightarrow> 32 word option \<Rightarrow> nat option \<Rightarrow> world
     \<Rightarrow> int \<times> string option \<times> world" where
  "agentbox_ns_probe k pipe_err fork_err killed detail_len w =
     (let scratch = snprintf PATH_MAX (''/tmp/agentbox_probe_'' @ dec_of_int (k_pid k));
          w1 = ns_mkdir_p scratch w;
          say = (\<lambda>m. map_option (\<lambda>n. snprintf n m) detail_len)
      in (case pipe_err of
            Some e \<Rightarrow> (probenum AGENTBOX_PROBE_FORK_FAILED, say (''pipe() failed: '' @ k_strerror k e), rm_rf k scratch w1)
          | None \<Rightarrow> (case fork_err of
              Some e \<Rightarrow> (probenum AGENTBOX_PROBE_FORK_FAILED, say (''fork() failed: '' @ k_strerror k e), rm_rf k scratch w1)
            | None \<Rightarrow>
                (let (r, msg, w2) = probe_child_body k scratch 256 w1;
                     text = c_str (take 255 (c_str msg));
                     status = (case killed of Some st \<Rightarrow> st | None \<Rightarrow> word_of_int (probenum r * 256));
                     w3 = rm_rf k scratch (w2\<lparr>mtab := mtab w1\<rparr>)
                 in if \<not> WIFEXITED status then (probenum AGENTBOX_PROBE_FORK_FAILED, say text, w3)
                    else (WEXITSTATUS status, say text, w3)))))"


section \<open>The AppArmor profile\<close>

definition apparmor_profile :: "string \<Rightarrow> string" where
  "apparmor_profile binary_path =
     ''abi <abi/4.0>,'' @ LF # ''include <tunables/global>'' @ LF # LF #
     CHR 0x22 # binary_path @ CHR 0x22 # '' flags=(unconfined) {'' @ LF #
     ''  userns,'' @ LF # ''}'' @ [LF]"

text \<open>
  \<open>euid\<close> is the effective user, \<open>parser\<close> the wait status of \<^verbatim>\<open>apparmor_parser\<close>, or None when
  \<^verbatim>\<open>fork\<close> fails. \<^verbatim>\<open>fopen\<close> creates the file with mode 0666; the code does not look at the results of
  the writes.
\<close>

definition agentbox_ns_install_apparmor_profile ::
  "nat \<Rightarrow> 32 word option \<Rightarrow> string option \<Rightarrow> world \<Rightarrow> errcode \<times> world" where
  "agentbox_ns_install_apparmor_profile euid parser binary_path w =
     (if euid \<noteq> 0 then (AGENTBOX_ERR_PERMISSION_DENIED, w)
      else (case binary_path of
          None \<Rightarrow> (AGENTBOX_ERR_INVALID_ARGUMENT, w)
        | Some p \<Rightarrow>
            if take 1 p \<noteq> [SLASH] then (AGENTBOX_ERR_INVALID_ARGUMENT, w)
            else (case sys_stat p w of
                Inl e \<Rightarrow> (AGENTBOX_ERR_INVALID_ARGUMENT, w)
              | Inr n \<Rightarrow>
                  if st_type (stat_of n) \<noteq> S_IFREG then (AGENTBOX_ERR_INVALID_ARGUMENT, w)
                  else (case sys_stat ''/sys/kernel/security/apparmor'' w of
                      Inl e \<Rightarrow> (AGENTBOX_OK, w)
                    | Inr m \<Rightarrow> (case sys_open_write ''/etc/apparmor.d/agentbox-exec'' 438 w of
                        (Inl e, w1) \<Rightarrow> (AGENTBOX_ERR_IO, w1)
                      | (Inr fd, w1) \<Rightarrow>
                          (let w2 = fd_append fd (apparmor_profile p) w1 in
                           (case parser of
                              None \<Rightarrow> (AGENTBOX_ERR_GENERIC, w2)
                            | Some status \<Rightarrow>
                                if \<not> WIFEXITED status \<or> WEXITSTATUS status \<noteq> 0 then (AGENTBOX_ERR_GENERIC, w2)
                                else (AGENTBOX_OK, w2))))))))"


section \<open>Probe and entry agree\<close>

text \<open>What the code of an entry is, given what the probe found with the same kernel.\<close>

fun enter_of_probe :: "probe_result \<Rightarrow> errcode set" where
  "enter_of_probe AGENTBOX_PROBE_OK = {AGENTBOX_OK}"
| "enter_of_probe AGENTBOX_PROBE_UNSHARE_FAILED = {AGENTBOX_ERR_NAMESPACE_UNAVAILABLE}"
| "enter_of_probe AGENTBOX_PROBE_ID_MAP_DENIED = {AGENTBOX_ERR_NAMESPACE_UNAVAILABLE}"
| "enter_of_probe AGENTBOX_PROBE_MOUNT_PERM_DENIED = {AGENTBOX_OK}"
| "enter_of_probe AGENTBOX_PROBE_MOUNT_OTHER_FAILED = {AGENTBOX_ERR_MOUNT_FAILED, AGENTBOX_OK}"
| "enter_of_probe AGENTBOX_PROBE_FORK_FAILED = {}"

lemma probe_body_enter: "agentbox_ns_enter k \<in> enter_of_probe (fst (probe_child_body k scratch len w))"
  by (simp add: agentbox_ns_enter_def probe_child_body_def Let_def split: option.split prod.split)

end
