(* ===== verification/Lifecycle.thy ===== *)
theory Lifecycle
  imports Client Namespace
begin

text \<open>
  Creating and destroying a sandbox on the client side of \<^verbatim>\<open>src/c/agentbox_core.c\<close>, the capability
  probe through the separate binary, and \<^verbatim>\<open>main\<close> of \<^verbatim>\<open>src/c/agentbox_exec_main.c\<close>.
\<close>

section \<open>Path strings of the C library\<close>

text \<open>\<^verbatim>\<open>dirname\<close> and \<^verbatim>\<open>basename\<close> of \<^verbatim>\<open>libgen.h\<close>.\<close>

definition strip_slashes :: "string \<Rightarrow> string" where
  "strip_slashes s = rev (dropWhile (\<lambda>c. c = SLASH) (rev s))"

definition c_dirname :: "string \<Rightarrow> string" where
  "c_dirname s =
     (let t = strip_slashes s in
      if s = [] then ''.''
      else if t = [] then [SLASH]
      else if SLASH \<notin> set t then ''.''
      else (let u = strip_slashes (rev (dropWhile (\<lambda>c. c \<noteq> SLASH) (rev t))) in
            if u = [] then [SLASH] else u))"

definition c_basename :: "string \<Rightarrow> string" where
  "c_basename s =
     (let t = strip_slashes s in
      if s = [] then ''.''
      else if t = [] then [SLASH]
      else rev (takeWhile (\<lambda>c. c \<noteq> SLASH) (rev t)))"


section \<open>Locating and probing the binary\<close>

text \<open>\<open>dli_fname\<close> is the path of the shared library, if \<^verbatim>\<open>dladdr\<close> finds it.\<close>

definition locate_exec_binary :: "string option \<Rightarrow> nat \<Rightarrow> errcode + string" where
  "locate_exec_binary dli_fname out_len = (case dli_fname of
     None \<Rightarrow> Inl AGENTBOX_ERR_GENERIC
   | Some f \<Rightarrow> Inr (snprintf out_len
       (c_dirname (snprintf AGENTBOX_PATH_LEN f) @ SLASH # AGENTBOX_EXEC_BINARY_NAME)))"

text \<open>
  \<open>output\<close> is what the probing process prints before the read returns, \<open>wst\<close> its wait status.
\<close>

definition agentbox_probe_capabilities ::
  "string option \<Rightarrow> bool \<Rightarrow> bool \<Rightarrow> bytes \<Rightarrow> 32 word \<Rightarrow> nat option \<Rightarrow> int \<times> string option" where
  "agentbox_probe_capabilities dli_fname pipe_ok fork_ok output wst detail_len =
     (case locate_exec_binary dli_fname AGENTBOX_PATH_LEN of
        Inl e \<Rightarrow> (probenum AGENTBOX_PROBE_FORK_FAILED,
          map_option (\<lambda>n. snprintf n ''could not locate agentbox-exec binary'') detail_len)
      | Inr exec_path \<Rightarrow>
          if \<not> pipe_ok \<or> \<not> fork_ok then (probenum AGENTBOX_PROBE_FORK_FAILED, None)
          else (if \<not> WIFEXITED wst then probenum AGENTBOX_PROBE_FORK_FAILED else WEXITSTATUS wst,
                map_option (\<lambda>n. snprintf n (c_str (take 255 output))) detail_len))"

definition agentbox_install_apparmor_profile ::
  "nat \<Rightarrow> 32 word option \<Rightarrow> string option \<Rightarrow> world \<Rightarrow> errcode \<times> world" where
  "agentbox_install_apparmor_profile = agentbox_ns_install_apparmor_profile"


section \<open>Create\<close>

text \<open>
  What the kernel decides: the pid of the caller and of the child, the six characters \<^verbatim>\<open>mkdtemp\<close>
  puts in, whether the two directories are on one device, the results of \<^verbatim>\<open>dladdr\<close>,
  \<^verbatim>\<open>socketpair\<close> and \<^verbatim>\<open>fork\<close>, and what the supervisor has done to the tree when its answer
  arrives.
\<close>

record create_env =
  ce_pid :: int
  ce_child :: int
  ce_random :: string
  ce_same_dev :: bool
  ce_dli_fname :: "string option"
  ce_socketpair :: bool
  ce_fork :: bool
  ce_supervisor :: "string \<Rightarrow> string \<Rightarrow> world \<Rightarrow> world"

text \<open>
  A fresh sibling of the workspace. \<^verbatim>\<open>mkdtemp\<close> replaces the last six characters of the template
  and makes the directory with mode 0700.
\<close>

definition sibling_dir :: "create_env \<Rightarrow> string \<Rightarrow> world \<Rightarrow> (errcode + string) \<times> world" where
  "sibling_dir env workspace w =
     (let copy = snprintf AGENTBOX_PATH_LEN workspace;
          template = c_dirname copy @ ''/.agentbox_rt_'' @ c_basename copy @ ''_'' @ dec_of_int (ce_pid env) @ ''_XXXXXX''
      in if AGENTBOX_PATH_LEN \<le> length template then (Inl AGENTBOX_ERR_INVALID_ARGUMENT, w)
         else (let rdir = take (length template - 6) template @ ce_random env in
               (case sys_mkdir rdir 448 w of
                  (None, w1) \<Rightarrow> (Inr rdir, w1)
                | (Some e, w1) \<Rightarrow> (Inl AGENTBOX_ERR_IO, w1))))"

definition choose_runtime_dir :: "create_env \<Rightarrow> string \<Rightarrow> string option \<Rightarrow> world \<Rightarrow> (errcode + string) \<times> world" where
  "choose_runtime_dir env workspace runtime_in w =
     (case runtime_in of
        None \<Rightarrow> sibling_dir env workspace w
      | Some r \<Rightarrow>
          if r = [] then sibling_dir env workspace w
          else (let rdir = snprintf AGENTBOX_PATH_LEN r in
                (case sys_mkdir rdir 448 w of
                   (None, w1) \<Rightarrow> (Inr rdir, w1)
                 | (Some e, w1) \<Rightarrow> (if e \<noteq> EEXIST then Inl AGENTBOX_ERR_IO else Inr rdir, w1))))"

definition new_box :: "create_env \<Rightarrow> string \<Rightarrow> string \<Rightarrow> box" where
  "new_box env workspace rdir =
     \<lparr>bx_workspace_dir = snprintf AGENTBOX_PATH_LEN workspace,
      bx_runtime_dir = snprintf AGENTBOX_PATH_LEN rdir,
      bx_merged_dir = snprintf AGENTBOX_PATH_LEN (rdir @ ''/merged''),
      bx_supervisor_pid = ce_child env, bx_active = True\<rparr>"

text \<open>\<open>sk\<close> is the client's end of the socket pair. Every exit after the choice removes the directory.\<close>

definition agentbox_create ::
  "create_env \<Rightarrow> string \<Rightarrow> string option \<Rightarrow> sock \<Rightarrow> world \<Rightarrow> ((int + box) \<times> sock \<times> world) option" where
  "agentbox_create env workspace runtime_in sk w =
     (case sys_stat workspace w of
        Inl e \<Rightarrow> Some (Inl (errnum AGENTBOX_ERR_INVALID_ARGUMENT), sk, w)
      | Inr n \<Rightarrow>
          if st_type (stat_of n) \<noteq> S_IFDIR then Some (Inl (errnum AGENTBOX_ERR_INVALID_ARGUMENT), sk, w)
          else (case choose_runtime_dir env workspace runtime_in w of
              (Inl rc, w1) \<Rightarrow> Some (Inl (errnum rc), sk, w1)
            | (Inr rdir, w1) \<Rightarrow> (case sys_stat rdir w1 of
                Inl e \<Rightarrow> Some (Inl (errnum AGENTBOX_ERR_IO), sk, w1)
              | Inr m \<Rightarrow>
                  if \<not> ce_same_dev env
                  then Some (Inl (errnum AGENTBOX_ERR_FILESYSTEM_MISMATCH), sk, snd (sys_rmdir rdir w1))
                  else (case locate_exec_binary (ce_dli_fname env) AGENTBOX_PATH_LEN of
                      Inl rc \<Rightarrow> Some (Inl (errnum AGENTBOX_ERR_GENERIC), sk, snd (sys_rmdir rdir w1))
                    | Inr exec_path \<Rightarrow>
                        if \<not> ce_socketpair env \<or> \<not> ce_fork env
                        then Some (Inl (errnum AGENTBOX_ERR_GENERIC), sk, snd (sys_rmdir rdir w1))
                        else (let w2 = ce_supervisor env workspace rdir w1 in
                          (case recv_frame (mem w2) sk of
                             None \<Rightarrow> None
                           | Some (None, sk1) \<Rightarrow> Some (Inl DOWN, sk1, snd (sys_rmdir rdir w2))
                           | Some (Some resp, sk1) \<Rightarrow>
                               if \<not> strncmp_eq (c_str resp) ''OK''
                               then (let result = c_atoi (fst (next_field (snd (next_field resp))));
                                         w3 = snd (sys_rmdir rdir w2)
                                     in if result \<noteq> 0 then Some (Inl result, sk1, w3)
                                        else Some (Inr (new_box env workspace rdir), sk1, w3))
                               else Some (Inr (new_box env workspace rdir), sk1, w2)))))))"


section \<open>Destroy\<close>

text \<open>
  \<open>supervisor\<close> is what the supervisor does to the tree until it has exited. The code looks neither
  at the result of the request nor at the response.
\<close>

definition agentbox_destroy ::
  "(world \<Rightarrow> world) \<Rightarrow> box \<Rightarrow> sock \<Rightarrow> world \<Rightarrow> (errcode \<times> box \<times> sock \<times> world) option" where
  "agentbox_destroy supervisor bx sk w =
     (if \<not> bx_active bx then Some (AGENTBOX_OK, bx, sk, w)
      else (case send_frame_str sk ''SHUTDOWN'' of
          None \<Rightarrow> None
        | Some (rc, sk1) \<Rightarrow> (case recv_frame (mem w) sk1 of
            None \<Rightarrow> None
          | Some (resp, sk2) \<Rightarrow>
              (let bx1 = bx\<lparr>bx_active := False\<rparr> in
               (case sys_rmdir (bx_runtime_dir bx) (supervisor w) of
                  (None, w1) \<Rightarrow> Some (AGENTBOX_OK, bx1, sk2, w1)
                | (Some e, w1) \<Rightarrow> Some (if e \<noteq> ENOENT then AGENTBOX_ERR_IO else AGENTBOX_OK, bx1, sk2, w1))))))"


section \<open>The binary\<close>

text \<open>
  \<^verbatim>\<open>main\<close>: the probe mode prints the detail and exits with the result, too few arguments are a
  usage error, and otherwise the supervisor runs on the descriptor and the paths of the arguments.
  \<open>supervise\<close> stands for \<^const>\<open>agentbox_supervisor_main\<close> on that descriptor.
\<close>

definition exec_main ::
  "(nat \<Rightarrow> int \<times> string) \<Rightarrow> (int \<Rightarrow> string \<Rightarrow> string \<Rightarrow> int option) \<Rightarrow> string list \<Rightarrow> (int \<times> string \<times> string) option" where
  "exec_main probe supervise argv =
     (if 2 \<le> length argv \<and> argv ! 1 = ''--probe''
      then (let (rc, detail) = probe 256 in Some (rc, detail, []))
      else if length argv < 4
      then Some (2, [], ''usage: '' @ (argv ! 0) @ '' <workspace_dir> <runtime_dir> <ctrl_fd>'' @ [LF])
      else (case supervise (c_atoi (argv ! 3)) (argv ! 1) (argv ! 2) of
          None \<Rightarrow> None
        | Some wst \<Rightarrow> Some (wst, [], [])))"

text \<open>The flag the README installs the profile with is not one the binary knows: it is taken as a usage error.\<close>

lemma install_flag_is_usage_error:
  "exec_main probe supervise [exe, ''--install-apparmor'', path]
     = Some (2, [], ''usage: '' @ exe @ '' <workspace_dir> <runtime_dir> <ctrl_fd>'' @ [LF])"
  by (simp add: exec_main_def)

end
