(* ===== verification/Buffers.thy ===== *)
theory Buffers
  imports Session Lifecycle
begin

text \<open>
  Whatever bytes arrive and whatever the kernel answers, the strings in the supervisor's state fit
  their arrays and the table does not overflow; and requests that mean nothing change nothing.
\<close>

section \<open>The state fits its arrays\<close>

definition checkpoint_fits :: "checkpoint \<Rightarrow> bool" where
  "checkpoint_fits c \<longleftrightarrow> length (ck_id c) < AGENTBOX_ID_LEN \<and> length (ck_tag c) < AGENTBOX_TAG_LEN
     \<and> length (ck_layer_dir c) < AGENTBOX_PATH_LEN"

definition state_fits :: "supervisor_state \<Rightarrow> bool" where
  "state_fits st \<longleftrightarrow> length (workspace_dir st) < AGENTBOX_PATH_LEN \<and> length (runtime_dir st) < AGENTBOX_PATH_LEN
     \<and> length (merged_dir st) < AGENTBOX_PATH_LEN \<and> length (live_upper st) < AGENTBOX_PATH_LEN
     \<and> length (live_work st) < AGENTBOX_PATH_LEN
     \<and> list_all checkpoint_fits (checkpoints st) \<and> checkpoint_count st \<le> AGENTBOX_MAX_CHECKPOINTS"

lemma lens_pos [simp]: "0 < AGENTBOX_PATH_LEN" "0 < AGENTBOX_ID_LEN" "0 < AGENTBOX_TAG_LEN"
  by (simp_all add: AGENTBOX_PATH_LEN_def AGENTBOX_ID_LEN_def AGENTBOX_TAG_LEN_def)

lemma generation_fits: "state_fits st \<Longrightarrow> state_fits (fst (new_generation_dirs st w))"
  by (simp add: state_fits_def new_generation_dirs_def Let_def snprintf_length checkpoint_count_def)

lemma checkpoints_fit:
  "state_fits st \<Longrightarrow> list_all checkpoint_fits cs \<Longrightarrow> length cs \<le> AGENTBOX_MAX_CHECKPOINTS \<Longrightarrow>
     state_fits (st\<lparr>checkpoints := cs\<rparr>)"
  by (simp add: state_fits_def checkpoint_count_def)

lemma handle_checkpoint_fits:
  assumes "state_fits st" "handle_checkpoint tag (st, gl, w) = (r, (st', gl', w'))"
  shows "state_fits st'"
proof -
  have "state_fits (st\<lparr>next_checkpoint_num := i, checkpoints := checkpoints st @
      [\<lparr>ck_id = snprintf AGENTBOX_ID_LEN a, ck_tag = snprintf AGENTBOX_TAG_LEN b,
        ck_layer_dir = snprintf AGENTBOX_PATH_LEN d, ck_created_at_ms = t\<rparr>]\<rparr>)"
    if "\<not> AGENTBOX_MAX_CHECKPOINTS \<le> checkpoint_count st" for i a b d t
    using assms(1) that by (simp add: state_fits_def checkpoint_count_def checkpoint_fits_def snprintf_length)
  with assms show ?thesis
    by (auto simp: handle_checkpoint_def Let_def prod.case_eq_if split: if_splits intro!: generation_fits)
qed

lemma handle_rollback_fits:
  assumes "state_fits st" "handle_rollback target (st, gl, w) = (r, (st', gl', w'))"
  shows "state_fits st'"
proof -
  have "state_fits (st\<lparr>checkpoints := take k (checkpoints st)\<rparr>)" for k
    using assms(1) by (intro checkpoints_fit)
      (auto simp: state_fits_def checkpoint_count_def list_all_iff dest: in_set_takeD)
  with assms show ?thesis
    by (auto simp: handle_rollback_def Let_def prod.case_eq_if split: if_splits intro!: generation_fits)
qed

lemma handle_commit_fits:
  assumes "state_fits st" "handle_commit (st, gl, w) = (r, (st', gl', w'))"
  shows "state_fits st'"
proof -
  have "state_fits (st\<lparr>checkpoints := []\<rparr>)" using assms(1) by (intro checkpoints_fit) simp_all
  with assms show ?thesis
    by (auto simp: handle_commit_def Let_def prod.case_eq_if split: if_splits intro!: generation_fits)
qed

text \<open>What a request does to the engine is one of these.\<close>

lemma serve_request_engine:
  assumes "serve_request c req e sk = Some (e', sk', stop)"
  obtains tag where "e' = snd (handle_checkpoint tag e)" | t where "e' = snd (handle_rollback t e)"
  | "e' = snd (handle_commit e)" | "e' = snd (handle_diff e)"
  | i w where "e' = ((fst e)\<lparr>run_counter := i\<rparr>, fst (snd e), w)" | "e' = handle_shutdown e" | "e' = e"
proof -
  let ?v = "fst (next_field req)" and ?c = "snd (next_field req)"
  consider "serve_checkpoint ?c e sk = Some (e', sk', stop)" | "serve_rollback ?c e sk = Some (e', sk', stop)"
    | "serve_commit e sk = Some (e', sk', stop)" | "serve_diff e sk = Some (e', sk', stop)"
    | "serve_run c ?c e sk = Some (e', sk', stop)" | "serve_shutdown e sk = Some (e', sk', stop)" | "e' = e"
    using assms by (auto simp: serve_request_def Let_def prod.case_eq_if split: if_splits)
  then show thesis
  proof cases
    case 1
    then show ?thesis using that(1) by (auto simp: serve_checkpoint_def Let_def prod.case_eq_if split: sum.splits)
  next
    case 2
    then show ?thesis using that(2) by (auto simp: serve_rollback_def Let_def prod.case_eq_if)
  next
    case 3
    then show ?thesis using that(3) by (auto simp: serve_commit_def Let_def prod.case_eq_if)
  next
    case 4
    then show ?thesis using that(4) by (auto simp: serve_diff_def Let_def prod.case_eq_if split: sum.splits)
  next
    case 5
    then show ?thesis using that(5) by (auto simp: serve_run_def Let_def prod.case_eq_if split: option.splits)
  next
    case 6
    then show ?thesis using that(6) by (auto simp: serve_shutdown_def)
  qed (use that(7) in blast)
qed

lemma serve_request_fits:
  assumes "state_fits (fst e)" "serve_request c req e sk = Some (e', sk', stop)"
  shows "state_fits (fst e')"
proof -
  obtain st gl w where e: "e = (st, gl, w)" by (rule prod_cases3)
  obtain st' gl' w' where e': "e' = (st', gl', w')" by (rule prod_cases3)
  have run: "state_fits (st\<lparr>run_counter := i\<rparr>)" for i using assms(1) by (simp add: e state_fits_def checkpoint_count_def)
  from assms(2) have "state_fits st'"
  proof (cases rule: serve_request_engine)
    case (1 tag)
    then show ?thesis using assms(1) handle_checkpoint_fits unfolding e e' by (metis fst_conv prod.collapse)
  next
    case (2 t)
    then show ?thesis using assms(1) handle_rollback_fits unfolding e e' by (metis fst_conv prod.collapse)
  next
    case 3
    then show ?thesis using assms(1) handle_commit_fits unfolding e e' by (metis fst_conv prod.collapse)
  next
    case 4
    then show ?thesis using assms(1) handle_diff_state unfolding e e' by (metis fst_conv prod.collapse)
  next
    case (5 i v)
    then show ?thesis using run by (simp add: e e')
  next
    case 6
    then show ?thesis using assms(1) by (simp add: e e' handle_shutdown_def)
  next
    case 7
    then show ?thesis using assms(1) by (simp add: e e')
  qed
  then show ?thesis by (simp add: e')
qed

lemma serve_loop_fits:
  "serve_loop cmds e sk = Some (e', sk') \<Longrightarrow> state_fits (fst e) \<Longrightarrow> state_fits (fst e')"
proof (induction cmds e sk rule: serve_loop.induct)
  case (1 cmds e sk)
  obtain r sk1 where r: "recv_frame (mem (world_of e)) sk = Some (r, sk1)"
    using "1.prems"(1) by (auto simp: serve_loop.simps [of cmds] split: option.splits)
  show ?case
  proof (cases r)
    case None
    then show ?thesis using 1 r by (simp add: serve_loop.simps [of cmds])
  next
    case (Some req)
    obtain c cs e1 sk2 stop where c: "cmds = c # cs" "serve_request c req e sk1 = Some (e1, sk2, stop)"
      using "1.prems"(1) r Some by (auto simp: serve_loop.simps [of cmds] split: option.splits list.splits)
    note f = serve_request_fits [OF "1.prems"(2) c(2)]
    show ?thesis
    proof (cases stop)
      case True
      then show ?thesis using "1.prems"(1) r Some c f by (simp add: serve_loop.simps [of "c # cs"])
    next
      case False
      then have "serve_loop cs e1 sk2 = Some (e', sk')" using "1.prems"(1) r Some c by (simp add: serve_loop.simps [of "c # cs"])
      then show ?thesis using "1.IH" [OF r refl Some c(1) c(2)] False f by blast
    qed
  qed
qed

lemma init_fits: "state_fits (fst (snd (init_supervisor workspace runtime w)))"
proof -
  have "state_fits \<lparr>workspace_dir = snprintf AGENTBOX_PATH_LEN workspace, runtime_dir = snprintf AGENTBOX_PATH_LEN runtime,
      merged_dir = snprintf AGENTBOX_PATH_LEN (runtime @ ''/merged''), live_upper = [], live_work = [],
      generation = 0, next_checkpoint_num = 0, run_counter = 0, checkpoints = []\<rparr>"
    by (simp add: state_fits_def checkpoint_count_def snprintf_length)
  then show ?thesis by (simp add: init_supervisor_def Let_def prod.case_eq_if generation_fits)
qed

text \<open>
  C15: The state of the supervisor fits its C type from the start to the end: every string fits the
  array it is in, with its NUL, and the table has at most 256 entries, whatever the paths it is
  started with, whatever frames it receives, and whatever the kernel and the commands do.
\<close>

theorem supervisor_state_fits:
  assumes "agentbox_supervisor_main ns_rc anchor_ok cmds gl workspace runtime w sk = Some (status, Some e, sk')"
  shows "state_fits (fst e)"
proof -
  obtain rc st w1 where i: "init_supervisor workspace runtime w = (rc, st, w1)" by (rule prod_cases3)
  have "state_fits st" using init_fits [of workspace runtime w] i by simp
  then show ?thesis
    using assms i serve_loop_fits [of cmds "(st, gl, w1)"]
    by (auto simp: agentbox_supervisor_main_def Let_def split: if_splits option.splits)
qed

lemma recv_frame_closed:
  "sk_in sk = [] \<Longrightarrow> sk_rd sk = Ret n # rd \<Longrightarrow> recv_frame alloc sk = Some (None, sk\<lparr>sk_rd := rd\<rparr>)"
  by (simp add: recv_frame_def recv_all_def eval_nat_numeral)

definition closed_end :: sock where
  "closed_end = \<lparr>sk_in = [], sk_out = [], sk_rd = [Ret 0], sk_wr = replicate 20 (Ret 1)\<rparr>"

lemma supervisor_state_fits_witness:
  "\<exists>e sk. agentbox_supervisor_main AGENTBOX_OK True [] demo_globals ''/ws'' ''/rt'' (demo_world []) closed_end
       = Some (0, Some e, sk) \<and> state_fits (fst e)"
proof -
  have m: "mem (demo_world []) n" for n by (simp add: demo_world_def)
  have "steady (sk_wr closed_end)" "length (ok_payload ''ready'') + 4 \<le> moves (sk_wr closed_end)"
    using moves_replicate [of 20] steady_replicate [of 20 1] by (simp_all add: closed_end_def ok_payload_def del: replicate.simps)
  then obtain sc where "send_frame closed_end (ok_payload ''ready'')
      = Some (0, closed_end\<lparr>sk_out := sk_out closed_end @ frame (ok_payload ''ready''), sk_wr := sc\<rparr>)"
    by (rule send_frame_succeeds)
  moreover have "no_nul (ok_payload ''ready'')" by (simp add: ok_payload_def no_nul_def)
  ultimately obtain sk where s: "send_ok closed_end ''ready'' = Some sk" "sk_in sk = []" "sk_rd sk = [Ret 0]"
    by (simp add: send_ok_def send_frame_str_def c_str_id closed_end_def)
  then have "serve_loop [] (demo_state, demo_globals, demo_started) sk = Some ((demo_state, demo_globals, demo_started), sk\<lparr>sk_rd := []\<rparr>)"
    by (simp add: serve_loop.simps [of "[]"] recv_frame_closed)
  then have "agentbox_supervisor_main AGENTBOX_OK True [] demo_globals ''/ws'' ''/rt'' (demo_world []) closed_end
      = Some (0, Some (demo_state, demo_globals, demo_started), sk\<lparr>sk_rd := []\<rparr>)"
    using m s(1) by (simp add: agentbox_supervisor_main_def demo_init)
  then show ?thesis using supervisor_state_fits by blast
qed

section \<open>Requests that mean nothing\<close>



text \<open>
  C32: A request whose first line is none of the verbs, the empty one for example, is answered with
  "invalid argument" and has no other effect; the loop goes on.
\<close>

theorem unknown_verb_refused:
  assumes "fst (next_field req) \<notin> {''CHECKPOINT'', ''ROLLBACK'', ''COMMIT'', ''DIFF'', ''RUN'', ''SHUTDOWN''}"
    and "sendable req" "sk_in ss = frame req @ later" "able (length req + 4) 520 ss" "\<forall>n. mem (world_of e) n"
  shows "\<exists>ss'. (\<forall>cs. serve_loop (c # cs) e ss = serve_loop cs e ss') \<and> sk_in ss' = later
    \<and> sk_out ss' = sk_out ss @ frame (err_payload AGENTBOX_ERR_INVALID_ARGUMENT ''unknown verb'')"
proof -
  let ?p = "err_payload AGENTBOX_ERR_INVALID_ARGUMENT ''unknown verb''"
  have p: "length ?p \<le> 511" "no_nul ?p" using err_payload_props by (simp_all add: no_nul_def)
  obtain ss1 where r: "recv_frame (mem (world_of e)) ss = Some (Some req, ss1)" "sk_in ss1 = later" "sk_out ss1 = sk_out ss"
    "able 0 520 ss1" using recv_frame_able [OF assms(4) le_refl assms(3,2,5)] by auto
  obtain ss2 where w: "send_frame ss1 ?p = Some (0, ss2)" "sk_out ss2 = sk_out ss1 @ frame ?p" "sk_in ss2 = sk_in ss1"
    by (rule send_frame_able [OF r(4), of ?p]) (use p(1) in auto)
  have "serve_request c req e ss1 = Some (e, ss2, False)"
    using assms(1) w(1) p(2) by (simp add: serve_request_def prod.case_eq_if send_err_def send_frame_str_def c_str_id)
  then have "serve_loop (c # cs) e ss = serve_loop cs e ss2" for cs
    using r(1) by (simp add: serve_loop.simps [of "c # cs"])
  then show ?thesis using w r by (intro exI [of _ ss2]) simp
qed

lemma unknown_verb_refused_witness:
  "\<exists>ss. serve_loop [demo_command] (demo_state, demo_globals, demo1) (demo_end (frame ''PING'')) = serve_loop [] (demo_state, demo_globals, demo1) ss
     \<and> sk_out ss = frame (err_payload AGENTBOX_ERR_INVALID_ARGUMENT ''unknown verb'')"
proof -
  have v: "fst (next_field ''PING'') \<notin> {''CHECKPOINT'', ''ROLLBACK'', ''COMMIT'', ''DIFF'', ''RUN'', ''SHUTDOWN''}"
    by (simp add: next_field_last no_nul_def no_lf_def)
  have s: "sendable ''PING''" "sk_in (demo_end (frame ''PING'')) = frame ''PING'' @ []" "able (length ''PING'' + 4) 520 (demo_end (frame ''PING''))"
    "sk_out (demo_end (frame ''PING'')) = []"
    by (simp add: sendable_def MAX_FRAME_LEN_def, simp add: demo_end_def, intro demo_end_able, simp_all add: demo_end_def)
  from unknown_verb_refused [OF v s(1-3) demo_mem(2)] show ?thesis unfolding s(4) by (metis append_Nil)
qed

end
