(* ===== verification/Operations.thy ===== *)
theory Operations
  imports Failures
begin

text \<open>
  What single operations do: the handlers as functions of the abstract sandbox, what they leave
  alone, and the two workhorses of \<^verbatim>\<open>agentbox_cow.c\<close>, the purge and the merge.
\<close>

section \<open>The handlers as functions of the sandbox\<close>

text \<open>
  C3: The handlers implement the abstract sandbox: read off the tree, a checkpoint, a rollback to
  entry \<open>k - 1\<close> and a commit are the functions of the specification, and each keeps the invariant,
  whether or not the remount at its end succeeds.
\<close>

theorem handlers_refine_sandbox:
  assumes "sandbox_inv st w" "counters_ok st"
  shows "(checkpoint_count st < AGENTBOX_MAX_CHECKPOINTS \<longrightarrow> handle_checkpoint tag (st, gl, w) = (r1, (st1, gl1, w1)) \<longrightarrow>
      sandbox_inv st1 w1 \<and> abs_sandbox st1 w1 = spec_checkpoint (next_id st) (fresh_dir w) (abs_sandbox st w))
    \<and> (rollback_index target st \<noteq> -2 \<longrightarrow> handle_rollback target (st, gl, w) = (r2, (st2, gl2, w2)) \<longrightarrow>
      sandbox_inv st2 w2 \<and> abs_sandbox st2 w2 = spec_rollback (nat (rollback_index target st + 1)) (fresh_dir w) (abs_sandbox st w))
    \<and> (commit_ready st w \<longrightarrow> handle_commit (st, gl, w) = (r3, (st3, gl3, w3)) \<longrightarrow>
      sandbox_inv st3 w3 \<and> abs_sandbox st3 w3 = spec_commit (umask w) (fresh_dir w) (abs_sandbox st w))"
proof (intro conjI impI)
  assume a: "checkpoint_count st < AGENTBOX_MAX_CHECKPOINTS" "handle_checkpoint tag (st, gl, w) = (r1, (st1, gl1, w1))"
  show "sandbox_inv st1 w1" "abs_sandbox st1 w1 = spec_checkpoint (next_id st) (fresh_dir w) (abs_sandbox st w)"
    by (rule checkpoint_refines [OF assms a(1), where tag = tag and gl = gl], use a(2) in simp)+
next
  assume a: "rollback_index target st \<noteq> -2" "handle_rollback target (st, gl, w) = (r2, (st2, gl2, w2))"
  show "sandbox_inv st2 w2"
    "abs_sandbox st2 w2 = spec_rollback (nat (rollback_index target st + 1)) (fresh_dir w) (abs_sandbox st w)"
    by (rule rollback_refines [OF assms a(1), where gl = gl], use a(2) in simp)+
next
  assume a: "commit_ready st w" "handle_commit (st, gl, w) = (r3, (st3, gl3, w3))"
  show "sandbox_inv st3 w3" "abs_sandbox st3 w3 = spec_commit (umask w) (fresh_dir w) (abs_sandbox st w)"
    by (rule commit_refines [OF assms a(1), where gl = gl], use a(2) in simp)+
qed

lemma handlers_refine_sandbox_witness:
  "(case handle_checkpoint ''t'' (demo_state, demo_globals, demo1) of (r, st, gl, w) \<Rightarrow>
      abs_sandbox st w = spec_checkpoint ''ckpt-0'' (fresh_dir demo1) (abs_sandbox demo_state demo1))
   \<and> (case handle_rollback None (demo_state, demo_globals, demo1) of (r, st, gl, w) \<Rightarrow>
      abs_sandbox st w = spec_rollback 0 (fresh_dir demo1) (abs_sandbox demo_state demo1))
   \<and> (case handle_commit (demo_state, demo_globals, demo1) of (r, st, gl, w) \<Rightarrow>
      abs_sandbox st w = spec_commit 18 (fresh_dir demo1) (abs_sandbox demo_state demo1))"
proof -
  obtain r1 st1 gl1 w1 where c: "handle_checkpoint ''t'' (demo_state, demo_globals, demo1) = (r1, (st1, gl1, w1))" by (metis prod.exhaust)
  obtain r2 st2 gl2 w2 where b: "handle_rollback None (demo_state, demo_globals, demo1) = (r2, (st2, gl2, w2))" by (metis prod.exhaust)
  obtain r3 st3 gl3 w3 where m: "handle_commit (demo_state, demo_globals, demo1) = (r3, (st3, gl3, w3))" by (metis prod.exhaust)
  have s: "checkpoint_count demo_state < AGENTBOX_MAX_CHECKPOINTS" "rollback_index None demo_state = -1" "next_id demo_state = ''ckpt-0''"
    by (code_simp)+
  have u: "umask demo1 = 18" by (simp add: demo1_def demo_world_def)
  show ?thesis
    using handlers_refine_sandbox [OF demo_inv demo_counters, of "''t''" demo_globals r1 st1 gl1 w1 None r2 st2 gl2 w2 r3 st3 gl3 w3]
      c b m s u demo_commit_ready(1) by simp
qed

section \<open>Who writes to the workspace\<close>

text \<open>A history of commands, checkpoints, rollbacks and diffs, without a commit.\<close>

inductive works :: "engine \<Rightarrow> engine \<Rightarrow> bool" where
  idle: "works e e"
| command: "works e (st, gl, w) \<Longrightarrow> confined st w w' \<Longrightarrow> works e (st\<lparr>run_counter := n\<rparr>, gl, w')"
| save: "works e (st, gl, w) \<Longrightarrow> counters_ok st \<Longrightarrow> handle_checkpoint tag (st, gl, w) = (r, e') \<Longrightarrow> works e e'"
| back_to: "works e (st, gl, w) \<Longrightarrow> counters_ok st \<Longrightarrow> handle_rollback target (st, gl, w) = (rc, e') \<Longrightarrow> works e e'"
| compare: "works e (st, gl, w) \<Longrightarrow> handle_diff (st, gl, w) = (d, e') \<Longrightarrow> works e e'"

text \<open>What every state of such a history shares with the first one.\<close>

definition same_base :: "supervisor_state \<Rightarrow> world \<Rightarrow> supervisor_state \<Rightarrow> world \<Rightarrow> bool" where
  "same_base st w st' w' \<longleftrightarrow> sandbox_inv st' w' \<and> dirs st' = dirs st \<and> tree w' (workspace_dir st) = tree w (workspace_dir st)"

lemma same_base_trans: "same_base st w st1 w1 \<Longrightarrow> same_base st1 w1 st2 w2 \<Longrightarrow> same_base st w st2 w2"
  by (auto simp: same_base_def dirs_def)

lemma same_base_abs:
  "sandbox_inv st' w' \<Longrightarrow> dirs st' = dirs st \<Longrightarrow> sb_base (abs_sandbox st' w') = sb_base (abs_sandbox st w) \<Longrightarrow> same_base st w st' w'"
  by (simp add: same_base_def abs_sandbox_def dirs_def)

lemma checkpoint_same_base:
  assumes "sandbox_inv st w" "counters_ok st" "handle_checkpoint tag (st, gl, w) = (r, (st', gl', w'))"
  shows "same_base st w st' w'"
proof (cases "checkpoint_count st < AGENTBOX_MAX_CHECKPOINTS")
  case True
  have "sandbox_inv st' w' \<and> sb_base (abs_sandbox st' w') = sb_base (abs_sandbox st w)"
    by (rule checkpoint_refines [OF assms(1,2) True, where tag = tag and gl = gl]) (use assms(3) in \<open>simp add: spec_checkpoint_def\<close>)
  then show ?thesis using handle_checkpoint_dirs [OF assms(3)] same_base_abs by blast
next
  case False
  then show ?thesis using assms checkpoint_limit [of st tag gl w] by (simp add: same_base_def)
qed

lemma rollback_same_base:
  assumes "sandbox_inv st w" "counters_ok st" "handle_rollback target (st, gl, w) = (rc, (st', gl', w'))"
  shows "same_base st w st' w'"
proof (cases "rollback_index target st = -2")
  case False
  have "sandbox_inv st' w' \<and> sb_base (abs_sandbox st' w') = sb_base (abs_sandbox st w)"
    by (rule rollback_refines [OF assms(1,2) False, where gl = gl]) (use assms(3) in \<open>simp add: spec_rollback_def\<close>)
  then show ?thesis using handle_rollback_dirs [OF assms(3)] same_base_abs by blast
next
  case True
  then show ?thesis using assms rollback_unknown [of target st gl w] by (simp add: same_base_def)
qed

lemma confined_same_base:
  assumes "sandbox_inv st w" "confined st w w'"
  shows "same_base st w (st\<lparr>run_counter := n\<rparr>) w'"
  using confined_inv [OF assms] confined_abs [OF assms] by (intro same_base_abs) simp_all




section \<open>Purge and copy\<close>

text \<open>
  C24: A purge removes the entry its path names with everything below it, of whatever kind and however
  deep, and nothing else; links are not followed.
\<close>

theorem purge_removes_subtree:
  assumes "quiet w" "names w s p" "wf_node (fs w)"
  shows "\<exists>w'. agentbox_cow_purge s w = (AGENTBOX_OK, w') \<and> (\<forall>q. lookup (fs w') (p @ q) = None)
    \<and> (\<forall>q. p \<parallel> q \<longrightarrow> lookup (fs w') q = lookup (fs w) q) \<and> dir_at (fs w') (butlast p)"
  using cow_purge_removes [OF assms] assms(2)
  by (simp add: lookup_append lookup_put_parallel names_def dir_at_put_butlast lookup_put_self)

lemma demo_names: "names demo1 ''/rt'' [''rt'']" "names demo1 ''/ws/a'' [''ws'', ''a'']" "names demo1 ''/ws/d/f'' [''ws'', ''d'', ''f'']"
proof -
  have "comps ''/ws/a'' = [''ws'', ''a'']" "comps ''/ws/d/f'' = [''ws'', ''d'', ''f'']" by code_simp+
  then show "names demo1 ''/rt'' [''rt'']" "names demo1 ''/ws/a'' [''ws'', ''a'']" "names demo1 ''/ws/d/f'' [''ws'', ''d'', ''f'']"
    by (simp_all add: names_def demo_comps wf_name_def dir_at_def demo_defs)
qed

lemma demo_wf: "quiet demo1" "wf_node (fs demo1)"
  by (simp add: demo1_def, simp add: demo_defs wf_name_def no_nul_def)

lemma purge_removes_subtree_witness:
  "\<exists>w. agentbox_cow_purge ''/rt'' demo1 = (AGENTBOX_OK, w) \<and> lookup (fs w) [''rt'', ''merged''] = None \<and> tree w ''/ws'' = demo_ws"
proof -
  obtain w where w: "agentbox_cow_purge ''/rt'' demo1 = (AGENTBOX_OK, w)" "\<forall>q. lookup (fs w) ([''rt''] @ q) = None"
    "\<forall>q. [''rt''] \<parallel> q \<longrightarrow> lookup (fs w) q = lookup (fs demo1) q"
    using purge_removes_subtree [OF demo_wf(1) demo_names(1) demo_wf(2)] by blast
  have "lookup (fs w) [''rt'', ''merged''] = None" using w(2) by (metis append_Cons append_Nil)
  moreover have "lookup (fs w) [''ws''] = lookup (fs demo1) [''ws'']" using w(3) by (simp add: parallel_def del: lookup.simps)
  then have "tree w ''/ws'' = demo_ws" by (simp add: tree_def demo_comps demo_defs)
  ultimately show ?thesis using w(1) by blast
qed

text \<open>
  C25: Copying a file installs its bytes and its mode, less the umask, at the target, in the place of
  whatever was there but a directory, however many bytes the kernel takes at each write.
\<close>

theorem copy_installs_file:
  assumes "quiet w" "names w src p" "names w dst q" "lookup (fs w) p = Some (Reg m' c)"
    and "case lookup (fs w) q of None \<Rightarrow> True | Some k \<Rightarrow> \<not> is_dir k"
  shows "\<exists>w'. copy_regular_file src dst m w = (AGENTBOX_OK, w') \<and> lookup (fs w') q = Some (Reg (m AND 4095 AND NOT (umask w)) c)
    \<and> (\<forall>k. q \<parallel> k \<longrightarrow> lookup (fs w') k = lookup (fs w) k)"
  using copy_regular_file_copies [OF assms] names_put_self [OF assms(3), of None] lookup_put_names
  by (fastforce simp: lookup_put_parallel)

lemma copy_installs_file_witness:
  "\<exists>w. copy_regular_file ''/ws/d/f'' ''/ws/a'' 511 (demo1\<lparr>wsize := (\<lambda>n. 1)\<rparr>) = (AGENTBOX_OK, w)
     \<and> lookup (fs w) [''ws'', ''a''] = Some (Reg 493 ''y'')"
proof -
  let ?w = "demo1\<lparr>wsize := (\<lambda>n. 1)\<rparr>"
  have n: "quiet ?w" "names ?w ''/ws/d/f'' [''ws'', ''d'', ''f'']" "names ?w ''/ws/a'' [''ws'', ''a'']"
    using demo_names demo_wf(1) by (simp_all add: names_def quiet_def)
  have f: "lookup (fs ?w) [''ws'', ''d'', ''f''] = Some (Reg 420 ''y'')"
    "case lookup (fs ?w) [''ws'', ''a''] of None \<Rightarrow> True | Some k \<Rightarrow> \<not> is_dir k" by (simp_all add: demo_defs)
  have "(511 AND 4095 AND NOT 18 :: 32 word) = 493" by code_simp
  moreover have "umask ?w = 18" by (simp add: demo_defs)
  ultimately show ?thesis using copy_installs_file [OF n f, of 511] by (simp del: lookup.simps) blast
qed


section \<open>The merge of a commit\<close>

text \<open>
  C9: The walks of a commit over the sealed layers, with their purges, copies and links, compute the
  replay of the layer trees, oldest first, on the tree of the workspace, and touch nothing
  outside it.
\<close>

theorem merge_is_replay:
  assumes "commit_setting s T d layers ls w" "replayable (umask w) ls d" "T \<noteq> []"
  shows "\<exists>g' w'. agentbox_cow_commit_merge layers s (g, w) = (AGENTBOX_OK, (g', w'))
    \<and> lookup (fs w') T = Some (replay (umask w) ls d)
    \<and> (\<forall>q. T \<parallel> q \<longrightarrow> lookup (fs w') q = lookup (fs w) q)"
proof -
  have d: "lookup (fs w) T = Some d" and l: "layers = [] \<longleftrightarrow> ls = []"
    using assms(1) by (auto simp: commit_setting_def)
  obtain g' where "agentbox_cow_commit_merge layers s (g, w)
      = (AGENTBOX_OK, (g', if layers = [] then w else below T (replay (umask w) ls d) w))"
    using commit_merge_replays [OF assms(1,2)] by blast
  moreover have "lookup (fs (if layers = [] then w else below T (replay (umask w) ls d) w)) T = Some (replay (umask w) ls d)"
    using d l lookup_put_exists [OF d assms(3)] by (simp add: replay_def)
  moreover have "\<forall>q. T \<parallel> q \<longrightarrow> lookup (fs (if layers = [] then w else below T (replay (umask w) ls d) w)) q = lookup (fs w) q"
    by (simp add: lookup_put_parallel)
  ultimately show ?thesis by blast
qed

lemma demo_merge_setting: "commit_setting ''/ws'' [''ws''] demo_ws [''/rt/upper_1''] [demo_live] demo1"
proof -
  have "comps ''/rt/upper_1'' = [''rt'', ''upper_1'']" by code_simp
  then show ?thesis
    by (simp add: commit_setting_def layer_at_def quiet_def demo_comps demo_defs wf_name_def no_nul_def parallel_def PATH_MAX_def)
qed

lemma merge_is_replay_witness:
  "\<exists>g w. agentbox_cow_commit_merge [''/rt/upper_1''] ''/ws'' (demo_globals, demo1) = (AGENTBOX_OK, (g, w))
     \<and> lookup (fs w) [''ws''] = Some (Dir 493 [] [(''d'', Dir 493 [] []), (''a'', Reg 420 ''z'')])"
proof -
  have "replayable (umask demo1) [demo_live] demo_ws" by code_simp
  moreover have "replay (umask demo1) [demo_live] demo_ws = Dir 493 [] [(''d'', Dir 493 [] []), (''a'', Reg 420 ''z'')]" by code_simp
  ultimately show ?thesis using merge_is_replay [OF demo_merge_setting, of demo_globals] by auto
qed

end
