(* ===== verification/Creation.thy ===== *)
theory Creation
  imports Session Lifecycle
begin

text \<open>
  The beginning of a sandbox: the probe against the entry it predicts, the errors of
  \<^verbatim>\<open>agentbox_create\<close> and what they leave behind, and the way of a start-up error to the caller.
\<close>

section \<open>The probe\<close>

definition probe_sees :: "ns_kernel \<Rightarrow> nat option \<Rightarrow> world \<Rightarrow> int" where
  "probe_sees k len w = fst (agentbox_ns_probe k None None None len w)"

text \<open>Without a signal the result of the body comes back through the exit status.\<close>

lemma probe_status: "WIFEXITED (word_of_int (probenum r * 256)) \<and> WEXITSTATUS (word_of_int (probenum r * 256)) = probenum r"
  by (cases r) (simp_all add: WIFEXITED_mod WEXITSTATUS_div uint_word_of_int)

lemma probe_sees_body:
  "probe_sees k len w = probenum (fst (probe_child_body k (snprintf PATH_MAX (''/tmp/agentbox_probe_'' @ dec_of_int (k_pid k))) 256
     (ns_mkdir_p (snprintf PATH_MAX (''/tmp/agentbox_probe_'' @ dec_of_int (k_pid k))) w)))"
  using probe_status by (simp add: probe_sees_def agentbox_ns_probe_def Let_def prod.case_eq_if)

lemma probe_body_predicts:
  "(agentbox_ns_enter k = AGENTBOX_ERR_NAMESPACE_UNAVAILABLE
      \<longleftrightarrow> fst (probe_child_body k s n v) \<in> {AGENTBOX_PROBE_UNSHARE_FAILED, AGENTBOX_PROBE_ID_MAP_DENIED})
   \<and> (agentbox_ns_enter k = AGENTBOX_ERR_MOUNT_FAILED \<longrightarrow> fst (probe_child_body k s n v) = AGENTBOX_PROBE_MOUNT_OTHER_FAILED)
   \<and> (fst (probe_child_body k s n v) = AGENTBOX_PROBE_OK \<longrightarrow> agentbox_ns_enter k = AGENTBOX_OK)"
  using probe_body_enter [of k s n v] by (cases "fst (probe_child_body k s n v)") auto

text \<open>
  C27: The probe, run against a kernel, tells what an entry with the same kernel gives: it finds
  \<^verbatim>\<open>unshare\<close> or the id maps refused exactly if the entry reports the namespaces unavailable; if the
  entry cannot make the mounts private the probe reports a mount error; and if the probe is content,
  the entry succeeds.
\<close>

theorem probe_predicts_entry:
  "(agentbox_ns_enter k = AGENTBOX_ERR_NAMESPACE_UNAVAILABLE
      \<longleftrightarrow> probe_sees k len w \<in> {probenum AGENTBOX_PROBE_UNSHARE_FAILED, probenum AGENTBOX_PROBE_ID_MAP_DENIED})
   \<and> (agentbox_ns_enter k = AGENTBOX_ERR_MOUNT_FAILED \<longrightarrow> probe_sees k len w = probenum AGENTBOX_PROBE_MOUNT_OTHER_FAILED)
   \<and> (probe_sees k len w = probenum AGENTBOX_PROBE_OK \<longrightarrow> agentbox_ns_enter k = AGENTBOX_OK)"
  using probe_body_predicts unfolding probe_sees_body insert_iff probenum_inj by blast

lemma mkdir_p_mounts: "mount_answer (mkdir_p path m w) = mount_answer w"
proof -
  have one: "mount_answer (snd (sys_mkdir s m w)) = mount_answer w" for s m w
    by (simp add: sys_mkdir_def entry_call_def split: option.split sum.split)
  have "mount_answer (fold (\<lambda>i w. snd (sys_mkdir (take i t) 493 w)) is w) = mount_answer w" for t "is" w
    by (induction "is" arbitrary: w) (simp_all add: one)
  then show ?thesis by (simp add: mkdir_p_def Let_def one)
qed

lemma probe_body_content:
  assumes "k_unshare k = None" "\<And>p. k_proc_open k p = None" "\<And>p d. k_proc_write k p d = None" "k_private k = None"
    and "\<And>a b. mount_answer w a b = None"
  shows "fst (probe_child_body k s n w) = AGENTBOX_PROBE_OK"
  using assms by (simp add: probe_child_body_def write_proc_self_def Let_def sys_mount_def ns_mkdir_p_def mkdir_p_mounts split: prod.split)

definition demo_kernel :: "errno option \<Rightarrow> ns_kernel" where
  "demo_kernel priv = \<lparr>k_uid = 1000, k_gid = 1000, k_pid = 7, k_unshare = None, k_proc_open = (\<lambda>p. None),
     k_proc_write = (\<lambda>p d. None), k_private = priv, k_system = (\<lambda>c w. (0, w)), k_strerror = (\<lambda>e. ''error'')\<rparr>"

lemma probe_predicts_entry_witness:
  "probe_sees (demo_kernel None) (Some 64) demo1 = probenum AGENTBOX_PROBE_OK \<and> agentbox_ns_enter (demo_kernel None) = AGENTBOX_OK
   \<and> probe_sees (demo_kernel (Some EPERM)) (Some 64) demo1 = probenum AGENTBOX_PROBE_MOUNT_OTHER_FAILED"
proof -
  have "probe_sees (demo_kernel None) (Some 64) demo1 = probenum AGENTBOX_PROBE_OK"
    unfolding probe_sees_body ns_mkdir_p_def
    by (rule arg_cong [OF probe_body_content]) (simp_all add: demo_kernel_def mkdir_p_mounts demo1_def demo_world_def)
  moreover have "agentbox_ns_enter (demo_kernel (Some EPERM)) = AGENTBOX_ERR_MOUNT_FAILED"
    by (simp add: agentbox_ns_enter_def demo_kernel_def write_proc_self_def)
  ultimately show ?thesis
    using probe_predicts_entry [of "demo_kernel None" "Some 64" demo1] probe_predicts_entry [of "demo_kernel (Some EPERM)" "Some 64" demo1]
    by blast
qed


section \<open>Failing to create\<close>

text \<open>The workspace is a directory, and the path \<open>r\<close> given for the runtime directory names \<open>p\<close>.\<close>

definition create_setting :: "world \<Rightarrow> string \<Rightarrow> path \<Rightarrow> string \<Rightarrow> path \<Rightarrow> bool" where
  "create_setting w workspace q r p \<longleftrightarrow>
     quiet w \<and> names w workspace q \<and> dir_at (fs w) q \<and> names w r p \<and> r \<noteq> [] \<and> length r < AGENTBOX_PATH_LEN \<and> p \<parallel> q"

lemma stat_names_dir: "quiet w \<Longrightarrow> names w s p \<Longrightarrow> lookup (fs w) p = Some (Dir m x es) \<Longrightarrow> sys_stat s w = Inr (Dir m x es)"
  using resolve_names_follow [of w s p] by (simp add: sys_stat_def)

lemma rmdir_empty_names:
  "quiet w \<Longrightarrow> names w s p \<Longrightarrow> lookup (fs w) p = Some (Dir m x []) \<Longrightarrow> snd (sys_rmdir s w) = w\<lparr>fs := put p None (fs w)\<rparr>"
  by (simp add: sys_rmdir_names)

text \<open>The outcomes of create between the choice of the directory and the start of the supervisor.\<close>

definition create_blocked :: "create_env \<Rightarrow> bool" where
  "create_blocked env \<longleftrightarrow> \<not> ce_same_dev env \<or> ce_dli_fname env = None \<or> \<not> ce_socketpair env \<or> \<not> ce_fork env"

definition block_code :: "create_env \<Rightarrow> errcode" where
  "block_code env = (if ce_same_dev env then AGENTBOX_ERR_GENERIC else AGENTBOX_ERR_FILESYSTEM_MISMATCH)"

lemma create_blocked_at:
  assumes "create_setting w workspace q r p" "create_blocked env"
    and "choose_runtime_dir env workspace (Some r) w = (Inr r, w1)" "quiet w1" "names w1 r p" "lookup (fs w1) p = Some (Dir m x [])"
  shows "agentbox_create env workspace (Some r) sk w = Some (Inl (errnum (block_code env)), sk, w1\<lparr>fs := put p None (fs w1)\<rparr>)"
proof -
  obtain m' x' es' where "lookup (fs w) q = Some (Dir m' x' es')"
    using assms(1) by (auto simp: create_setting_def elim: dir_atE)
  then have ws: "sys_stat workspace w = Inr (Dir m' x' es')" using assms(1) by (intro stat_names_dir) (auto simp: create_setting_def)
  have "sys_stat r w1 = Inr (Dir m x [])" using assms(4-6) by (rule stat_names_dir)
  then show ?thesis
    using assms(2,3) ws rmdir_empty_names [OF assms(4-6)]
    by (auto simp: agentbox_create_def create_blocked_def block_code_def locate_exec_binary_def split: option.split)
qed

lemma made_directory:
  assumes "quiet w" "names w r p" "lookup (fs w) p = None"
  defines "d \<equiv> Dir (448 AND 1023 AND NOT (umask w)) [] []"
  defines "w1 \<equiv> w\<lparr>fs := put p (Some d) (fs w)\<rparr>"
  shows "sys_mkdir r 448 w = (None, w1)" "quiet w1" "names w1 r p" "lookup (fs w1) p = Some d"
    "snd (sys_rmdir r w1) = w"
proof -
  show m: "sys_mkdir r 448 w = (None, w1)" "quiet w1" "names w1 r p" "lookup (fs w1) p = Some d"
    using assms(1-3) by (simp_all add: w1_def d_def sys_mkdir_def quiet_entry_call names_put_self)
  show "snd (sys_rmdir r w1) = w"
    using rmdir_empty_names [OF m(2,3) m(4) [unfolded d_def]] put_put_same [OF names_nonempty [OF assms(2)]] put_none_absent [OF assms(3)]
    by (simp add: w1_def)
qed


definition demo_create :: create_env where
  "demo_create = \<lparr>ce_pid = 40, ce_child = 41, ce_random = ''abcdef'', ce_same_dev = False, ce_dli_fname = Some ''/lib/x.so'',
     ce_socketpair = True, ce_fork = True, ce_supervisor = (\<lambda>a b w. w)\<rparr>"

lemma demo_create_setting:
  "create_setting (demo_world es) ''/ws'' [''ws''] ''/rt'' [''rt'']" "create_setting (demo_world es) ''/ws'' [''ws''] ''/r2'' [''r2'']"
proof -
  have "comps ''/r2'' = [''r2'']" by code_simp
  then show "create_setting (demo_world es) ''/ws'' [''ws''] ''/rt'' [''rt'']" "create_setting (demo_world es) ''/ws'' [''ws''] ''/r2'' [''r2'']"
    by (simp_all add: create_setting_def names_def demo_comps wf_name_def dir_at_def demo_world_def demo_tree_def demo_ws_def quiet_def
        parallel_def AGENTBOX_PATH_LEN_def)
qed


text \<open>
  C39: The same failure with a runtime directory that the caller had made and left empty takes the
  caller's directory away.
\<close>

theorem failed_create_removes_given_directory:
  assumes "create_setting w workspace q r p" "create_blocked env" "lookup (fs w) p = Some (Dir m x [])"
  shows "\<exists>w'. agentbox_create env workspace (Some r) sk w = Some (Inl (errnum (block_code env)), sk, w') \<and> lookup (fs w') p = None"
proof -
  have c: "quiet w" "names w r p" "r \<noteq> []" "length r < AGENTBOX_PATH_LEN" using assms(1) by (simp_all add: create_setting_def)
  have "sys_mkdir r 448 w = (Some EEXIST, w)" using c assms(3) by (simp add: sys_mkdir_def quiet_entry_call)
  then have ch: "choose_runtime_dir env workspace (Some r) w = (Inr r, w)" using c(3,4) by (simp add: choose_runtime_dir_def)
  from create_blocked_at [OF assms(1,2) ch c(1,2) assms(3)] c(2) show ?thesis by simp
qed

lemma failed_create_removes_given_directory_witness:
  "\<exists>w'. agentbox_create demo_create ''/ws'' (Some ''/rt'') (demo_end []) (demo_world [])
     = Some (Inl (errnum AGENTBOX_ERR_FILESYSTEM_MISMATCH), demo_end [], w') \<and> lookup (fs w') [''rt''] = None"
proof -
  have "create_blocked demo_create" "block_code demo_create = AGENTBOX_ERR_FILESYSTEM_MISMATCH"
    by (simp_all add: create_blocked_def block_code_def demo_create_def)
  moreover have "lookup (fs (demo_world [])) [''rt''] = Some (Dir 493 [] [])" by (simp add: demo_world_def demo_tree_def)
  ultimately show ?thesis using failed_create_removes_given_directory [OF demo_create_setting(1)] by metis
qed

text \<open>
  C28: When the namespaces cannot be entered, the supervisor sends the code and gives up, and the
  caller's create, reading that frame, returns the very code and has removed the directory it made.
\<close>

theorem startup_error_reaches_caller:
  assumes "create_setting w workspace q r p" "\<not> create_blocked env" "lookup (fs w) p = None" "\<forall>n. mem w n"
    and "\<And>v. ce_supervisor env workspace r v = v" "rc \<noteq> AGENTBOX_OK" "able 0 520 ss"
  shows "\<exists>ss' answer. agentbox_supervisor_main rc anchor cmds gl workspace r w ss = Some (1, None, ss')
    \<and> sk_out ss' = sk_out ss @ answer
    \<and> (\<forall>sk rest. able 520 0 sk \<longrightarrow> sk_in sk = answer @ rest \<longrightarrow>
        (\<exists>sk'. agentbox_create env workspace (Some r) sk w = Some (Inl (errnum rc), sk', w)))"
proof -
  let ?a = "err_payload rc ''namespace entry failed; run: sudo agentbox setup''"
  have a: "length ?a \<le> 511" "no_nul ?a" "sendable ?a"
    using err_payload_props(1) [of rc "''namespace entry failed; run: sudo agentbox setup''"]
      err_payload_props(2) [of "''namespace entry failed; run: sudo agentbox setup''" rc]
    by (simp_all add: no_nul_def sendable_def MAX_FRAME_LEN_def)
  obtain ss' where s: "send_frame ss ?a = Some (0, ss')" "sk_out ss' = sk_out ss @ frame ?a"
    by (rule send_frame_able [OF assms(7), of ?a]) (use a(1) in simp)
  then have sup: "agentbox_supervisor_main rc anchor cmds gl workspace r w ss = Some (1, None, ss')"
    using assms(6) a(2) by (simp add: agentbox_supervisor_main_def send_err_def send_frame_str_def c_str_id)
  have "\<exists>sk'. agentbox_create env workspace (Some r) sk w = Some (Inl (errnum rc), sk', w)" if able: "able 520 0 sk" and inq: "sk_in sk = frame ?a @ rest" for sk rest
  proof -
    have c: "quiet w" "names w r p" "r \<noteq> []" "length r < AGENTBOX_PATH_LEN" using assms(1) by (simp_all add: create_setting_def)
    obtain m' x' es' where "lookup (fs w) q = Some (Dir m' x' es')"
      using assms(1) by (auto simp: create_setting_def elim: dir_atE)
    then have ws: "sys_stat workspace w = Inr (Dir m' x' es')" using assms(1) by (intro stat_names_dir) (auto simp: create_setting_def)
    note m = made_directory [OF c(1,2) assms(3)]
    let ?w1 = "w\<lparr>fs := put p (Some (Dir (448 AND 1023 AND NOT (umask w)) [] [])) (fs w)\<rparr>"
    have ch: "choose_runtime_dir env workspace (Some r) w = (Inr r, ?w1)" using c(3,4) m(1) by (simp add: choose_runtime_dir_def)
    have st: "sys_stat r ?w1 = Inr (Dir (448 AND 1023 AND NOT (umask w)) [] [])" using m(2-4) by (rule stat_names_dir)
    obtain sk' where f: "recv_frame (mem ?w1) sk = Some (Some ?a, sk')"
      by (rule recv_frame_able [OF able _ inq a(3), where alloc = "mem ?w1"]) (use a(1) assms(4) in simp_all)
    have code: "c_atoi (fst (next_field (snd (next_field ?a)))) = errnum rc" "\<not> strncmp_eq (c_str ?a) ''OK''"
      using response.read_err [of rc "''namespace entry failed; run: sudo agentbox setup''"] a(2)
      by (auto simp: read_response_def prod.case_eq_if c_str_id strncmp_eq_def err_payload_def snprintf_def split: if_splits)
    have "agentbox_create env workspace (Some r) sk w = Some (Inl (errnum rc), sk', snd (sys_rmdir r ?w1))"
      using assms(2,5,6) ws ch st f code
      by (auto simp: agentbox_create_def create_blocked_def locate_exec_binary_def Let_def split: option.split)
    then show ?thesis using m(5) by auto
  qed
  then show ?thesis using sup s(2) by blast
qed

lemma startup_error_reaches_caller_witness:
  "\<exists>ss answer sk. agentbox_supervisor_main AGENTBOX_ERR_NAMESPACE_UNAVAILABLE True [] demo_globals ''/ws'' ''/r2'' (demo_world []) (demo_end [])
       = Some (1, None, ss) \<and> sk_out ss = answer
     \<and> agentbox_create (demo_create\<lparr>ce_same_dev := True\<rparr>) ''/ws'' (Some ''/r2'') (demo_end answer) (demo_world [])
       = Some (Inl (errnum AGENTBOX_ERR_NAMESPACE_UNAVAILABLE), sk, demo_world [])"
proof -
  have b: "\<not> create_blocked (demo_create\<lparr>ce_same_dev := True\<rparr>)" "lookup (fs (demo_world [])) [''r2''] = None" "\<forall>n. mem (demo_world []) n"
    "AGENTBOX_ERR_NAMESPACE_UNAVAILABLE \<noteq> AGENTBOX_OK"
    by (simp_all add: create_blocked_def demo_create_def demo_world_def demo_tree_def)
  have s: "ce_supervisor (demo_create\<lparr>ce_same_dev := True\<rparr>) a r v = v" for a r v by (simp add: demo_create_def)
  have able: "able 0 520 (demo_end inq)" "able 520 0 (demo_end inq)" for inq by (intro demo_end_able; simp)+
  note t = startup_error_reaches_caller [where anchor = True and cmds = "[]" and gl = demo_globals,
      OF demo_create_setting(2) b(1-3) s b(4) able(1) [of "[]"]]
  obtain ss answer where m: "agentbox_supervisor_main AGENTBOX_ERR_NAMESPACE_UNAVAILABLE True [] demo_globals ''/ws'' ''/r2'' (demo_world []) (demo_end [])
       = Some (1, None, ss)" "sk_out ss = sk_out (demo_end []) @ answer"
    and c: "\<forall>sk rest. able 520 0 sk \<longrightarrow> sk_in sk = answer @ rest \<longrightarrow>
       (\<exists>sk'. agentbox_create (demo_create\<lparr>ce_same_dev := True\<rparr>) ''/ws'' (Some ''/r2'') sk (demo_world [])
         = Some (Inl (errnum AGENTBOX_ERR_NAMESPACE_UNAVAILABLE), sk', demo_world []))"
    using t by (elim exE conjE) (rule that; assumption)
  have "sk_out (demo_end []) = []" "sk_in (demo_end answer) = answer @ []" by (simp_all add: demo_end_def)
  then show ?thesis using m c [rule_format, OF able(2)] by auto
qed

end
