(* ===== verification/Teardown.thy ===== *)
theory Teardown
  imports Session Lifecycle
begin

text \<open>
  The end of a sandbox: the supervisor's shutdown, what the client's \<^verbatim>\<open>agentbox_destroy\<close> finds
  afterwards, and how the request loop ends.
\<close>

section \<open>Shutdown\<close>

lemma entries_none: "(\<And>n. lookup t [n] = None) \<Longrightarrow> entries t = []"
proof (cases "entries t")
  case (Cons x es)
  assume "\<And>n. lookup t [n] = None"
  then have "lookup t [fst x] = None" by simp
  then show ?thesis using Cons by (simp split: option.splits)
qed simp

lemma rt_names: "places_ok st w \<Longrightarrow> names w (runtime_dir st) (rt st)"
proof -
  assume p: "places_ok st w"
  then have "rt st \<noteq> []" by (auto simp: places_ok_def parallel_def)
  then show ?thesis
    using p dir_at_prefix [of "fs w" "butlast (rt st)" "[last (rt st)]"] by (simp add: names_def places_ok_def wf_name_plain_all)
qed

lemma listdir_rt:
  assumes "places_ok st w"
  shows "sys_listdir (runtime_dir st) w = Some (map fst (entries (tree w (runtime_dir st))))"
proof -
  have d: "lookup (fs w) (rt st) = Some (tree w (runtime_dir st))" "is_dir (tree w (runtime_dir st))"
    using assms dir_at_tree [of w "runtime_dir st"] by (simp_all add: places_ok_def)
  have "resolve w True (runtime_dir st) = Inr (rt st)" using d by (intro resolve_names_follow rt_names assms) auto
  then show ?thesis using assms d by (simp add: sys_listdir_def places_ok_def)
qed

text \<open>The paths of the entries of the runtime directory fit the buffer they are printed into.\<close>

definition entries_fit :: "string \<Rightarrow> world \<Rightarrow> bool" where
  "entries_fit dir w \<longleftrightarrow> (\<forall>n \<in> set (map fst (entries (tree w dir))). length dir + 1 + length n < AGENTBOX_PATH_LEN)"

lemma shutdown_clears:
  assumes "places_ok st w" "entries_fit (runtime_dir st) w"
  shows "purge_runtime_dir_contents (runtime_dir st) w = clear_rt st (map fst (entries (tree w (runtime_dir st)))) w"
    "list_all wf_name (map fst (entries (tree w (runtime_dir st))))"
proof -
  let ?ns = "map fst (entries (tree w (runtime_dir st)))"
  have "wf_node (tree w (runtime_dir st))" using assms(1) by (simp add: places_ok_def wf_tree)
  then show wf: "list_all wf_name ?ns"
    using wf_entries_iff by (cases "tree w (runtime_dir st)") (auto simp: list_all_iff wf_entries_iff)
  have "map (\<lambda>n. snprintf AGENTBOX_PATH_LEN (runtime_dir st @ SLASH # n)) ?ns = map (\<lambda>n. runtime_dir st @ SLASH # n) ?ns"
    using assms(2) by (intro map_cong refl snprintf_fits) (auto simp: entries_fit_def)
  then show "purge_runtime_dir_contents (runtime_dir st) w = clear_rt st ?ns w"
    using listdir_rt [OF assms(1)] purge_entries_of_rt [OF assms(1) wf]
    by (simp only: purge_runtime_dir_contents_def clear_rt_def option.case)
qed

lemma shutdown_effect:
  assumes "sandbox_inv st w" "entries_fit (runtime_dir st) w" "handle_shutdown (st, gl, w) = (st', gl', w')"
  shows "entries (tree w' (runtime_dir st)) = [] \<and> dir_at (fs w') (rt st)
    \<and> tree w' (workspace_dir st) = tree w (workspace_dir st) \<and> st' = st \<and> places_ok st w'"
proof -
  let ?w1 = "snd (agentbox_cow_unmount (merged_dir st) w)" and ?ns = "map fst (entries (tree w (runtime_dir st)))"
  obtain m where w1: "?w1 = w\<lparr>mtab := m\<rparr>" using unmount_world by (metis prod.collapse)
  have p: "places_ok st w" using assms(1) by (simp add: sandbox_inv_def)
  have p1: "places_ok st ?w1" "entries_fit (runtime_dir st) ?w1" "tree ?w1 s = tree w s" for s
    using p assms(2) by (simp_all add: w1 entries_fit_def)
  have w': "w' = clear_rt st ?ns ?w1" "st' = st"
    using assms(3) shutdown_clears(1) [OF p1(1,2)] p1(3) by (auto simp: handle_shutdown_def)
  note c = clear_rt_ok [OF p1(1) shutdown_clears(2) [OF p assms(2)]]
  have p': "places_ok st w'" using c(1) w' by simp
  have d: "lookup (fs w) (rt st) = Some (tree w (runtime_dir st))" "lookup (fs w') (rt st) = Some (tree w' (runtime_dir st))"
    using dir_at_tree [of w "runtime_dir st"] dir_at_tree [of w' "runtime_dir st"] p p' by (simp_all add: places_ok_def)
  have "lookup (tree w' (runtime_dir st)) [n] = None" for n
  proof -
    have "lookup (tree w' (runtime_dir st)) [n] = lookup (fs w') (rt st @ [n])" by (simp add: lookup_append d(2))
    also have "\<dots> = (if n \<in> set ?ns then None else lookup (fs w) (rt st @ [n]))"
      using c(3) [of n] by (simp add: w'(1) w1)
    also have "\<dots> = None"
      using map_of_eq_None_iff [of "entries (tree w (runtime_dir st))" n]
      by (cases "map_of (entries (tree w (runtime_dir st))) n") (simp_all add: lookup_append d(1))
    finally show ?thesis .
  qed
  then have "entries (tree w' (runtime_dir st)) = []" by (rule entries_none)
  moreover have "tree w' (workspace_dir st) = tree w (workspace_dir st)" unfolding w'(1) c(2) p1(3) ..
  moreover have "dir_at (fs w') (rt st)" using p' by (simp add: places_ok_def)
  ultimately show ?thesis using w'(2) p' by blast
qed

text \<open>
  C22: A shutdown empties the runtime directory, whatever is in it, keeps the directory itself, and
  leaves the workspace as it is.
\<close>

theorem shutdown_empties_runtime:
  assumes "sandbox_inv st w" "entries_fit (runtime_dir st) w" "handle_shutdown (st, gl, w) = (st', gl', w')"
  shows "entries (tree w' (runtime_dir st)) = [] \<and> dir_at (fs w') (rt st)
    \<and> tree w' (workspace_dir st) = tree w (workspace_dir st) \<and> st' = st"
  using shutdown_effect [OF assms] by blast

lemma shutdown_empties_runtime_witness:
  "\<exists>st gl w. handle_shutdown (demo_state, demo_globals, demo1) = (st, gl, w)
     \<and> entries (tree w ''/rt'') = [] \<and> tree w ''/ws'' = tree demo1 ''/ws''"
proof -
  obtain st gl w where h: "handle_shutdown (demo_state, demo_globals, demo1) = (st, gl, w)" by (metis prod.exhaust)
  have "entries_fit (runtime_dir demo_state) demo1"
    by (simp add: entries_fit_def tree_def demo_defs demo_comps AGENTBOX_PATH_LEN_def)
  from shutdown_empties_runtime [OF demo_inv this h] h show ?thesis by (auto simp: demo_state_def)
qed


section \<open>Destroying the sandbox\<close>

text \<open>
  C23: After a shutdown the client's destroy succeeds: it sends the request, and with the supervisor
  gone, its own removal of the empty runtime directory goes through. Nothing of the sandbox is left
  but the workspace, which is as it was. A second destroy does nothing.
\<close>

theorem destroy_removes_runtime:
  assumes "sandbox_inv st w" "entries_fit (runtime_dir st) w" "handle_shutdown (st, gl, w) = (st', gl', w')"
    and "bx_active bx" "bx_runtime_dir bx = runtime_dir st"
    and "able (length resp + 4) 12 sk" "sk_in sk = frame resp @ rest" "sendable resp" "\<forall>n. mem w n"
  shows "\<exists>bx' sk' w''. agentbox_destroy (\<lambda>w. w') bx sk w = Some (AGENTBOX_OK, bx', sk', w'')
    \<and> sk_out sk' = sk_out sk @ frame ''SHUTDOWN'' \<and> lookup (fs w'') (rt st) = None
    \<and> tree w'' (workspace_dir st) = tree w (workspace_dir st)
    \<and> agentbox_destroy g bx' sk' w'' = Some (AGENTBOX_OK, bx', sk', w'')"
proof -
  note d = shutdown_effect [OF assms(1-3)]
  then have p: "places_ok st w'" by blast
  then have q: "quiet w'" "rt st \<parallel> ws st" by (simp_all add: places_ok_def)
  note nm = rt_names [OF p]
  have "lookup (fs w') (rt st) = Some (tree w' (runtime_dir st)) \<and> is_dir (tree w' (runtime_dir st))"
    using p dir_at_tree [of w' "runtime_dir st"] by (simp add: places_ok_def)
  then obtain m x where "lookup (fs w') (rt st) = Some (Dir m x [])"
    using conjunct1 [OF d] by (cases "tree w' (runtime_dir st)") simp_all
  then have rm: "sys_rmdir (runtime_dir st) w' = (None, w'\<lparr>fs := put (rt st) None (fs w')\<rparr>)"
    by (rule sys_rmdir_names [OF q(1) nm])
  have gone: "lookup (put (rt st) None (fs w')) (rt st) = None" using nm by simp
  have ws: "tree (w'\<lparr>fs := put (rt st) None (fs w')\<rparr>) (workspace_dir st) = tree w' (workspace_dir st)"
    using q(2) by (simp add: tree_def lookup_put_parallel)
  obtain sk1 where s: "send_frame sk ''SHUTDOWN'' = Some (0, sk1)" "sk_out sk1 = sk_out sk @ frame ''SHUTDOWN''"
    "sk_in sk1 = sk_in sk" "able (length resp + 4) 0 sk1"
    by (rule send_frame_able [OF assms(6), of "''SHUTDOWN''"]) simp_all
  obtain sk2 where r: "recv_frame (mem w) sk1 = Some (Some resp, sk2)" "sk_out sk2 = sk_out sk1"
    by (rule recv_frame_able [OF s(4) le_refl _ assms(8,9), of rest]) (use s(3) assms(7) in simp_all)
  have "agentbox_destroy (\<lambda>w. w') bx sk w
      = Some (AGENTBOX_OK, bx\<lparr>bx_active := False\<rparr>, sk2, w'\<lparr>fs := put (rt st) None (fs w')\<rparr>)"
    using assms(4,5) s(1) r(1) rm by (simp add: agentbox_destroy_def send_frame_str_def no_nul_def c_str_id)
  moreover have "agentbox_destroy g (bx\<lparr>bx_active := False\<rparr>) sk2 v = Some (AGENTBOX_OK, bx\<lparr>bx_active := False\<rparr>, sk2, v)" for v
    by (simp add: agentbox_destroy_def)
  moreover have "tree w' (workspace_dir st) = tree w (workspace_dir st)" using d by blast
  ultimately show ?thesis using gone ws s(2) r(2)
    by (intro exI [of _ "bx\<lparr>bx_active := False\<rparr>"] exI [of _ sk2] exI [of _ "w'\<lparr>fs := put (rt st) None (fs w')\<rparr>"]) simp
qed

definition demo_box :: box where
  "demo_box = \<lparr>bx_workspace_dir = ''/ws'', bx_runtime_dir = ''/rt'', bx_merged_dir = ''/rt/merged'',
     bx_supervisor_pid = 40, bx_active = True\<rparr>"

lemma destroy_removes_runtime_witness:
  "\<exists>bx sk w. agentbox_destroy (\<lambda>w. snd (snd (handle_shutdown (demo_state, demo_globals, demo1)))) demo_box (demo_end (frame ''OK'')) demo1
       = Some (AGENTBOX_OK, bx, sk, w)
     \<and> lookup (fs w) [''rt''] = None \<and> tree w ''/ws'' = tree demo1 ''/ws''"
proof -
  obtain st gl w where h: "handle_shutdown (demo_state, demo_globals, demo1) = (st, gl, w)" by (metis prod.exhaust)
  have fit: "entries_fit (runtime_dir demo_state) demo1"
    by (simp add: entries_fit_def tree_def demo_defs demo_comps AGENTBOX_PATH_LEN_def)
  have b: "bx_active demo_box" "bx_runtime_dir demo_box = runtime_dir demo_state" by (simp_all add: demo_box_def demo_state_def)
  have a: "able (length ''OK'' + 4) 12 (demo_end (frame ''OK''))" by (intro demo_end_able) simp_all
  have i: "sk_in (demo_end (frame ''OK'')) = frame ''OK'' @ []" by (simp add: demo_end_def)
  have m: "sendable ''OK''" "\<forall>n. mem demo1 n" using demo_mem(2) by (simp_all add: sendable_def MAX_FRAME_LEN_def world_of_def)
  have p: "rt demo_state = [''rt'']" "workspace_dir demo_state = ''/ws''" by (simp_all add: demo_state_def demo_comps)
  from destroy_removes_runtime [OF demo_inv fit h b a i m] show ?thesis
    unfolding h p snd_conv by blast
qed

end
