(* ===== verification/Spec2Isabelle.thy ===== *)
theory Spec2Isabelle
  imports Replies Channel Buffers Operations Creation Teardown
begin

text \<open> Header. \<close>

section \<open>Checkpoint and rollback\<close>



end
